theory Spec2Isabelle
  imports Main "HOL-Library.AList"
begin

section \<open>JSON values as Python sees them\<close>

text \<open>
  The values \<open>request.get_json()\<close> hands to the handlers and \<open>jsonify\<close> takes back:
  Python's \<open>None\<close>, \<open>bool\<close>, \<open>int\<close>, \<open>str\<close>, \<open>list\<close> and \<open>dict\<close> (keys in insertion
  order). Floating point numbers are left out of the model. A \<open>char\<close> stands for a code
  point below 256.
\<close>

datatype json =
    JNull
  | JBool bool
  | JInt int
  | JStr string
  | JArr "json list"
  | JObj "(string \<times> json) list"

text \<open>Python truthiness, as used by \<open>if not data\<close>.\<close>

fun truthy :: "json \<Rightarrow> bool" where
  "truthy JNull = False"
| "truthy (JBool b) = b"
| "truthy (JInt i) = (i \<noteq> 0)"
| "truthy (JStr s) = (s \<noteq> [])"
| "truthy (JArr xs) = (xs \<noteq> [])"
| "truthy (JObj kvs) = (kvs \<noteq> [])"

text \<open>A Python \<open>dict\<close> has each key once; this holds of every value parsed from JSON.\<close>

fun wf_json :: "json \<Rightarrow> bool" where
  "wf_json (JArr xs) = list_all wf_json xs"
| "wf_json (JObj kvs) = (distinct (map fst kvs) \<and> list_all (\<lambda>kv. wf_json (snd kv)) kvs)"
| "wf_json _ = True"

section \<open>\<open>json.dumps\<close>\<close>

abbreviation dquote :: char where "dquote \<equiv> CHR 0x22"
abbreviation bslash :: char where "bslash \<equiv> CHR 0x5C"

definition hex_digit :: "nat \<Rightarrow> char" where
  "hex_digit d = (if d < 10 then char_of (48 + d) else char_of (87 + d))"

text \<open>
  \<open>ESCAPE_ASCII\<close> of the encoder (\<open>ensure_ascii=True\<close>): backslash, the double quote and
  everything outside \<open>' '..'~'\<close> is escaped, with the short forms of \<open>ESCAPE_DCT\<close> first.
\<close>

definition escape_char :: "char \<Rightarrow> string" where
  "escape_char c =
     (if c = bslash then [bslash, bslash]
      else if c = dquote then [bslash, dquote]
      else if c = CHR 0x08 then [bslash, CHR ''b'']
      else if c = CHR 0x0C then [bslash, CHR ''f'']
      else if c = CHR 0x0A then [bslash, CHR ''n'']
      else if c = CHR 0x0D then [bslash, CHR ''r'']
      else if c = CHR 0x09 then [bslash, CHR ''t'']
      else if 32 \<le> (of_char c :: nat) \<and> (of_char c :: nat) \<le> 126 then [c]
      else [bslash, CHR ''u'', CHR ''0'', CHR ''0'',
            hex_digit ((of_char c :: nat) div 16), hex_digit ((of_char c :: nat) mod 16)])"

definition encode_basestring_ascii :: "string \<Rightarrow> string" where
  "encode_basestring_ascii s = dquote # concat (map escape_char s) @ [dquote]"

fun str_nat :: "nat \<Rightarrow> string" where
  "str_nat n = (if n < 10 then [char_of (48 + n)]
                else str_nat (n div 10) @ [char_of (48 + n mod 10)])"

declare str_nat.simps [simp del]

definition str_int :: "int \<Rightarrow> string" where
  "str_int i = (if i < 0 then CHR ''-'' # str_nat (nat (- i)) else str_nat (nat i))"

text \<open>Items joined by \<open>', '\<close>, keys and values by \<open>': '\<close>: the default separators.\<close>

fun join_items :: "string list \<Rightarrow> string" where
  "join_items [] = []"
| "join_items [x] = x"
| "join_items (x # y # ys) = x @ '', '' @ join_items (y # ys)"

fun dumps :: "json \<Rightarrow> string" where
  "dumps JNull = ''null''"
| "dumps (JBool b) = (if b then ''true'' else ''false'')"
| "dumps (JInt i) = str_int i"
| "dumps (JStr s) = encode_basestring_ascii s"
| "dumps (JArr xs) = ''['' @ join_items (map dumps xs) @ '']''"
| "dumps (JObj kvs) =
     ''{'' @ join_items (map (\<lambda>kv. encode_basestring_ascii (fst kv) @ '': '' @ dumps (snd kv)) kvs) @ ''}''"

section \<open>\<open>json.loads\<close>\<close>

text \<open>
  The decoder of the standard library, on the values of the model: a number with a
  fraction or an exponent, \<open>NaN\<close>, \<open>Infinity\<close> and a \<open>\u\<close> escape of a code point above
  255 have no value here and give \<open>None\<close>, as a \<open>JSONDecodeError\<close> does.
\<close>

definition is_ws :: "char \<Rightarrow> bool" where
  "is_ws c = (c = CHR '' '' \<or> c = CHR 0x09 \<or> c = CHR 0x0A \<or> c = CHR 0x0D)"

definition skip_ws :: "string \<Rightarrow> string" where
  "skip_ws s = dropWhile is_ws s"

definition is_digit :: "char \<Rightarrow> bool" where
  "is_digit c = (48 \<le> (of_char c :: nat) \<and> (of_char c :: nat) \<le> 57)"

definition unhex :: "char \<Rightarrow> nat option" where
  "unhex c =
     (let n = (of_char c :: nat) in
      if 48 \<le> n \<and> n \<le> 57 then Some (n - 48)
      else if 97 \<le> n \<and> n \<le> 102 then Some (n - 87)
      else if 65 \<le> n \<and> n \<le> 70 then Some (n - 55)
      else None)"

definition unhex4 :: "char \<Rightarrow> char \<Rightarrow> char \<Rightarrow> char \<Rightarrow> nat option" where
  "unhex4 a b c d =
     (case (unhex a, unhex b, unhex c, unhex d) of
        (Some x, Some y, Some z, Some w) \<Rightarrow> Some (((x * 16 + y) * 16 + z) * 16 + w)
      | _ \<Rightarrow> None)"

text \<open>The \<open>BACKSLASH\<close> table of the decoder.\<close>

definition unescape :: "char \<Rightarrow> char option" where
  "unescape e =
     (if e = dquote then Some dquote
      else if e = bslash then Some bslash
      else if e = CHR ''/'' then Some CHR ''/''
      else if e = CHR ''b'' then Some (CHR 0x08)
      else if e = CHR ''f'' then Some (CHR 0x0C)
      else if e = CHR ''n'' then Some (CHR 0x0A)
      else if e = CHR ''r'' then Some (CHR 0x0D)
      else if e = CHR ''t'' then Some (CHR 0x09)
      else None)"

definition cons_result :: "char \<Rightarrow> (string \<times> string) option \<Rightarrow> (string \<times> string) option" where
  "cons_result c r = map_option (\<lambda>(t, rest). (c # t, rest)) r"

text \<open>
  \<open>scanstring\<close> in strict mode, entered after the opening quote: the contents up to the
  closing quote and the input after it. A raw control character is an error.
\<close>

fun scanstring :: "string \<Rightarrow> (string \<times> string) option" where
  "scanstring [] = None"
| "scanstring (c # cs) =
     (if c = dquote then Some ([], cs)
      else if c = bslash then
        (case cs of
           [] \<Rightarrow> None
         | e # r \<Rightarrow>
             if e = CHR ''u'' then
               (case r of
                  h1 # h2 # h3 # h4 # r' \<Rightarrow>
                    (case unhex4 h1 h2 h3 h4 of
                       None \<Rightarrow> None
                     | Some n \<Rightarrow> if n < 256 then cons_result (char_of n) (scanstring r') else None)
                | _ \<Rightarrow> None)
             else
               (case unescape e of
                  None \<Rightarrow> None
                | Some x \<Rightarrow> cons_result x (scanstring r)))
      else if (of_char c :: nat) < 32 then None
      else cons_result c (scanstring cs))"

definition dec_val :: "string \<Rightarrow> nat" where
  "dec_val ds = foldl (\<lambda>a c. 10 * a + ((of_char c :: nat) - 48)) 0 ds"

text \<open>\<open>NUMBER_RE\<close>, integer part only: \<open>-?(0|[1-9][0-9]*)\<close>.\<close>

definition match_nat :: "string \<Rightarrow> (nat \<times> string) option" where
  "match_nat s =
     (case s of
        [] \<Rightarrow> None
      | c # r \<Rightarrow>
          if c = CHR ''0'' then Some (0, r)
          else if is_digit c then Some (dec_val (c # takeWhile is_digit r), dropWhile is_digit r)
          else None)"

definition match_number :: "string \<Rightarrow> (int \<times> string) option" where
  "match_number s =
     (case s of
        [] \<Rightarrow> None
      | c # r \<Rightarrow>
          if c = CHR ''-'' then map_option (\<lambda>(n, rest). (- int n, rest)) (match_nat r)
          else map_option (\<lambda>(n, rest). (int n, rest)) (match_nat s))"

text \<open>\<open>dict(pairs)\<close>: a repeated key keeps its first position and takes the last value.\<close>

definition dict_of_pairs :: "(string \<times> json) list \<Rightarrow> (string \<times> json) list" where
  "dict_of_pairs ps = foldl (\<lambda>d kv. AList.update (fst kv) (snd kv) d) [] ps"

text \<open>
  \<open>scan_once\<close>, \<open>JSONArray\<close> and \<open>JSONObject\<close> call each other on the input that the
  previous call left over; the first argument bounds the number of calls. \<open>array_loop\<close>
  and \<open>object_loop\<close> are the two \<open>while True\<close> loops, entered at the first element and
  after the opening quote of the first key.
\<close>

fun scan_once :: "nat \<Rightarrow> string \<Rightarrow> (json \<times> string) option"
  and array_loop :: "nat \<Rightarrow> json list \<Rightarrow> string \<Rightarrow> (json \<times> string) option"
  and object_loop :: "nat \<Rightarrow> (string \<times> json) list \<Rightarrow> string \<Rightarrow> (json \<times> string) option"
where
  "scan_once 0 s = None"
| "scan_once (Suc n) s =
     (case s of
        [] \<Rightarrow> None
      | c # r \<Rightarrow>
          if c = dquote then map_option (\<lambda>(t, rest). (JStr t, rest)) (scanstring r)
          else if c = CHR ''{'' then
            (case skip_ws r of
               [] \<Rightarrow> None
             | d # r' \<Rightarrow>
                 if d = CHR ''}'' then Some (JObj [], r')
                 else if d = dquote then object_loop n [] r'
                 else None)
          else if c = CHR ''['' then
            (case skip_ws r of
               [] \<Rightarrow> None
             | d # r' \<Rightarrow>
                 if d = CHR '']'' then Some (JArr [], r')
                 else array_loop n [] (d # r'))
          else if c = CHR ''n'' \<and> take 4 s = ''null'' then Some (JNull, drop 4 s)
          else if c = CHR ''t'' \<and> take 4 s = ''true'' then Some (JBool True, drop 4 s)
          else if c = CHR ''f'' \<and> take 5 s = ''false'' then Some (JBool False, drop 5 s)
          else map_option (\<lambda>(i, rest). (JInt i, rest)) (match_number s))"
| "array_loop 0 acc s = None"
| "array_loop (Suc n) acc s =
     (case scan_once n s of
        None \<Rightarrow> None
      | Some (v, r) \<Rightarrow>
          (case skip_ws r of
             [] \<Rightarrow> None
           | d # r' \<Rightarrow>
               if d = CHR '']'' then Some (JArr (acc @ [v]), r')
               else if d = CHR '','' then array_loop n (acc @ [v]) (skip_ws r')
               else None))"
| "object_loop 0 acc s = None"
| "object_loop (Suc n) acc s =
     (case scanstring s of
        None \<Rightarrow> None
      | Some (k, r) \<Rightarrow>
          (case skip_ws r of
             [] \<Rightarrow> None
           | c # r1 \<Rightarrow>
               if c \<noteq> CHR '':'' then None
               else
                 (case scan_once n (skip_ws r1) of
                    None \<Rightarrow> None
                  | Some (v, r2) \<Rightarrow>
                      (case skip_ws r2 of
                         [] \<Rightarrow> None
                       | d # r3 \<Rightarrow>
                           if d = CHR ''}'' then Some (JObj (dict_of_pairs (acc @ [(k, v)])), r3)
                           else if d = CHR '','' then
                             (case skip_ws r3 of
                                [] \<Rightarrow> None
                              | q # r4 \<Rightarrow>
                                  if q = dquote then object_loop n (acc @ [(k, v)]) r4 else None)
                           else None))))"

text \<open>
  \<open>json.loads\<close>: leading white space, one value, trailing white space, end of input.
  Every call of the decoder consumes a character, so the length of the text bounds them.
\<close>

definition loads :: "string \<Rightarrow> json option" where
  "loads s =
     (case scan_once (length s) (skip_ws s) of
        None \<Rightarrow> None
      | Some (v, rest) \<Rightarrow> if skip_ws rest = [] then Some v else None)"

section \<open>Exceptions, requests and responses\<close>

text \<open>
  What a view function can raise: \<open>abort(code)\<close> (an \<open>HTTPException\<close> of the framework),
  the \<open>AuthError\<close> of the authorization module, and any other Python exception
  (\<open>AttributeError\<close>, \<open>TypeError\<close>, a failure of the persistence layer).
\<close>

datatype malformed = MissingBearerPrefix | MissingTokenPart | TooManyParts

datatype auth_kind =
    AuthHeaderMissing
  | AuthHeaderMalformed malformed
  | MissingToken
  | InvalidHeader
  | InvalidClaims
  | Unauthorized

datatype exn = HTTPException nat | AuthError auth_kind | PyError

datatype http_method = GET | POST | PUT | PATCH | DELETE

text \<open>
  The URL as the routing rules see it; \<open><int:drink_id>\<close> matches digits only, so the
  identifier is a natural number. \<open>NoRoute\<close> is every other URL.
\<close>

datatype path = Drinks | DrinksDetail | DrinkItem nat | NoRoute

text \<open>
  The request object: \<open>authorization\<close> is the \<open>Authorization\<close> header, \<open>data\<close> the raw
  body (\<open>request.data\<close>) and \<open>get_json\<close> what \<open>request.get_json()\<close> returns: \<open>Some JNull\<close> is
  Python's \<open>None\<close>, returned when the request is not marked as JSON, and \<open>None\<close> is a body
  marked as JSON that does not parse, on which the framework raises \<open>BadRequest\<close> (400).
\<close>

record request =
  req_method :: http_method
  url :: path
  authorization :: "string option"
  data :: string
  get_json :: "json option"

text \<open>A response body is JSON, or the page the framework renders by default.\<close>

datatype body = Json json | DefaultPage

record response =
  status :: nat
  body :: body

definition jsonify :: "json \<Rightarrow> response" where
  "jsonify v = \<lparr>status = 200, body = Json v\<rparr>"

text \<open>
  \<open>data.get(key, None)\<close>: a lookup on a \<open>dict\<close>, an \<open>AttributeError\<close> on anything else.
\<close>

fun py_get :: "json \<Rightarrow> string \<Rightarrow> exn + json" where
  "py_get (JObj kvs) k = Inr (case map_of kvs k of None \<Rightarrow> JNull | Some v \<Rightarrow> v)"
| "py_get _ k = Inl PyError"

fun map_result :: "('a \<Rightarrow> exn + 'b) \<Rightarrow> 'a list \<Rightarrow> exn + 'b list" where
  "map_result f [] = Inr []"
| "map_result f (x # xs) =
     (case f x of
        Inl e \<Rightarrow> Inl e
      | Inr y \<Rightarrow> (case map_result f xs of Inl e \<Rightarrow> Inl e | Inr ys \<Rightarrow> Inr (y # ys)))"

section \<open>The drinks table\<close>

text \<open>
  Modelled from the spec: the \<open>Drink\<close> model and its operations (\<open>insert\<close>, \<open>update\<close>,
  \<open>delete\<close>, \<open>long\<close>, \<open>short\<close>) live in \<open>database/models.py\<close>, which is not among the
  sources. The spec gives a drink an integer \<open>id\<close> (system-assigned, unique), a \<open>title\<close>
  (string, required, unique) and a \<open>recipe\<close> stored as serialized text. The table is the
  list of its rows in insertion order.
\<close>

record drink =
  drink_id :: nat
  title :: string
  recipe :: string

type_synonym db = "drink list"

text \<open>
  Modelled from the spec: the identifier the store assigns, above every identifier in use.
\<close>

definition next_id :: "db \<Rightarrow> nat" where
  "next_id rows = Suc (fold max (map drink_id rows) 0)"

text \<open>
  Modelled from the spec: \<open>Drink(title=title, recipe=recipe)\<close> followed by \<open>insert()\<close>.
  The title must be a string no other drink has and the recipe a text; otherwise the
  persistence layer raises and nothing is stored. Returns the new identifier.
\<close>

fun Drink_insert :: "json \<Rightarrow> string option \<Rightarrow> db \<Rightarrow> exn + (nat \<times> db)" where
  "Drink_insert (JStr t) (Some r) rows =
     (if t \<in> set (map title rows) then Inl PyError
      else Inr (next_id rows, rows @ [\<lparr>drink_id = next_id rows, title = t, recipe = r\<rparr>]))"
| "Drink_insert _ _ rows = Inl PyError"

text \<open>
  Modelled from the spec: \<open>update()\<close> on the drink with identifier \<open>i\<close> whose attributes
  now hold \<open>t\<close> and \<open>r\<close>. The row is rewritten in place; a title that is not a string or
  that another drink has makes the commit fail. Returns the row as stored.
\<close>

fun Drink_update :: "nat \<Rightarrow> json \<Rightarrow> string \<Rightarrow> db \<Rightarrow> exn + (drink \<times> db)" where
  "Drink_update i (JStr t) r rows =
     (if \<exists>d \<in> set rows. drink_id d \<noteq> i \<and> title d = t then Inl PyError
      else Inr (\<lparr>drink_id = i, title = t, recipe = r\<rparr>,
                map (\<lambda>d. if drink_id d = i then d\<lparr>title := t, recipe := r\<rparr> else d) rows))"
| "Drink_update i _ r rows = Inl PyError"

text \<open>Modelled from the spec: \<open>delete()\<close> removes the row of the drink.\<close>

definition Drink_delete :: "drink \<Rightarrow> db \<Rightarrow> db" where
  "Drink_delete d rows = filter (\<lambda>x. drink_id x \<noteq> drink_id d) rows"

text \<open>
  Modelled from the spec: \<open>long()\<close> is \<open>{id, title, recipe}\<close> with the recipe deserialized
  from the stored text; a text that is not JSON raises.
\<close>

definition Drink_long :: "drink \<Rightarrow> exn + json" where
  "Drink_long d =
     (case loads (recipe d) of
        None \<Rightarrow> Inl PyError
      | Some v \<Rightarrow>
          Inr (JObj [(''id'', JInt (int (drink_id d))), (''title'', JStr (title d)), (''recipe'', v)]))"

text \<open>
  Modelled from the spec: \<open>short()\<close> is \<open>{id, title, recipe}\<close> where each entry of the
  deserialized recipe keeps \<open>color\<close> and \<open>parts\<close> only. A recipe that is not a sequence of
  entries with these two keys raises.
\<close>

fun short_entry :: "json \<Rightarrow> exn + json" where
  "short_entry (JObj kvs) =
     (case (map_of kvs ''color'', map_of kvs ''parts'') of
        (Some c, Some p) \<Rightarrow> Inr (JObj [(''color'', c), (''parts'', p)])
      | _ \<Rightarrow> Inl PyError)"
| "short_entry _ = Inl PyError"

definition Drink_short :: "drink \<Rightarrow> exn + json" where
  "Drink_short d =
     (case loads (recipe d) of
        Some (JArr rs) \<Rightarrow>
          (case map_result short_entry rs of
             Inl e \<Rightarrow> Inl e
           | Inr es \<Rightarrow>
               Inr (JObj [(''id'', JInt (int (drink_id d))), (''title'', JStr (title d)),
                          (''recipe'', JArr es)]))
      | _ \<Rightarrow> Inl PyError)"

text \<open>The query results of the ORM: \<open>one_or_none()\<close> raises on more than one row.\<close>

fun one_or_none :: "'a list \<Rightarrow> exn + 'a option" where
  "one_or_none [] = Inr None"
| "one_or_none [x] = Inr (Some x)"
| "one_or_none _ = Inl PyError"

fun first :: "'a list \<Rightarrow> 'a option" where
  "first [] = None"
| "first (x # _) = Some x"

section \<open>The authorization guard\<close>

text \<open>
  Modelled from the spec: \<open>auth/auth.py\<close> (\<open>AuthError\<close>, \<open>requires_auth\<close>) is not among the
  sources. The Token Verifier checks a signature against keys fetched from the identity
  provider; it is a parameter of the model, together with the prefix the header must
  start with.
\<close>

record claims =
  subject :: string
  permissions :: "string list option"
  expiry :: int

record auth_env =
  verify_decode_jwt :: "string \<Rightarrow> auth_kind + claims"
  bearer :: string

text \<open>\<open>str.split(' ')\<close>.\<close>

fun split_space :: "string \<Rightarrow> string list" where
  "split_space [] = [[]]"
| "split_space (c # cs) =
     (if c = CHR '' '' then [] # split_space cs
      else (case split_space cs of
              [] \<Rightarrow> [[c]]
            | w # ws \<Rightarrow> (c # w) # ws))"

text \<open>
  Modelled from the spec (4.3, steps 1 and 2): the header is present and is exactly two
  space-separated parts, the first being the bearer prefix.
\<close>

definition get_token_auth_header :: "auth_env \<Rightarrow> request \<Rightarrow> auth_kind + string" where
  "get_token_auth_header env req =
     (case authorization req of
        None \<Rightarrow> Inl AuthHeaderMissing
      | Some h \<Rightarrow>
          (case split_space h of
             [] \<Rightarrow> Inl (AuthHeaderMalformed MissingBearerPrefix)
           | p # ps \<Rightarrow>
               if p \<noteq> bearer env then Inl (AuthHeaderMalformed MissingBearerPrefix)
               else (case ps of
                       [] \<Rightarrow> Inl (AuthHeaderMalformed MissingTokenPart)
                     | [token] \<Rightarrow> Inr token
                     | _ \<Rightarrow> Inl (AuthHeaderMalformed TooManyParts))))"

text \<open>Modelled from the spec (4.2): a membership test on the permissions of the claims.\<close>

definition check_permissions :: "string \<Rightarrow> claims \<Rightarrow> auth_kind + unit" where
  "check_permissions required payload =
     (case permissions payload of
        None \<Rightarrow> if required \<noteq> [] then Inl InvalidClaims else Inl Unauthorized
      | Some ps \<Rightarrow> if required \<notin> set ps then Inl Unauthorized else Inr ())"

text \<open>Modelled from the spec (4.3, steps 1 to 4): the decision of the guard.\<close>

definition authorize :: "auth_env \<Rightarrow> string \<Rightarrow> request \<Rightarrow> auth_kind + claims" where
  "authorize env required req =
     (case get_token_auth_header env req of
        Inl k \<Rightarrow> Inl k
      | Inr token \<Rightarrow>
          (case verify_decode_jwt env token of
             Inl k \<Rightarrow> Inl k
           | Inr payload \<Rightarrow>
               (case check_permissions required payload of
                  Inl k \<Rightarrow> Inl k
                | Inr _ \<Rightarrow> Inr payload)))"

text \<open>
  Modelled from the spec (4.3, steps 5 and 6): the decorator \<open>@requires_auth(permission)\<close>.
  The guarded operation gets the verified claims as its first argument; an \<open>AuthError\<close>
  is raised as it is and the operation does not run.
\<close>

definition requires_auth ::
  "auth_env \<Rightarrow> string \<Rightarrow> (claims \<Rightarrow> db \<Rightarrow> (exn + 'a) \<times> db) \<Rightarrow> request \<Rightarrow> db \<Rightarrow> (exn + 'a) \<times> db" where
  "requires_auth env required f req rows =
     (case authorize env required req of
        Inl k \<Rightarrow> (Inl (AuthError k), rows)
      | Inr payload \<Rightarrow> f payload rows)"

text \<open>Modelled from the spec (7): the status of each kind of authorization failure.\<close>

fun auth_status :: "auth_kind \<Rightarrow> nat" where
  "auth_status Unauthorized = 403"
| "auth_status _ = 401"

section \<open>The routes of \<open>api.py\<close>\<close>

text \<open>
  A view function takes the table and returns what it returned or raised, with the table
  as it left it. \<open>Inr None\<close> is a function that ended without a \<open>return\<close>.
\<close>

type_synonym view_result = "(exn + response option) \<times> db"

definition success_drinks :: "json list \<Rightarrow> response" where
  "success_drinks ds = jsonify (JObj [(''success'', JBool True), (''drinks'', JArr ds)])"

text \<open>\<open>GET /drinks\<close>\<close>

definition get_drinks :: "db \<Rightarrow> view_result" where
  "get_drinks rows =
     (case map_result Drink_short rows of
        Inl e \<Rightarrow> (Inl e, rows)
      | Inr short_drinks \<Rightarrow> (Inr (Some (success_drinks short_drinks)), rows))"

text \<open>\<open>GET /drinks-detail\<close>\<close>

definition get_drink_details :: "claims \<Rightarrow> db \<Rightarrow> view_result" where
  "get_drink_details payload rows =
     (case map_result Drink_long (sort_key drink_id rows) of
        Inl e \<Rightarrow> (Inl e, rows)
      | Inr long_drinks \<Rightarrow> (Inr (Some (success_drinks long_drinks)), rows))"

text \<open>\<open>POST /drinks\<close>\<close>

definition add_drinks :: "claims \<Rightarrow> request \<Rightarrow> db \<Rightarrow> view_result" where
  "add_drinks payload req rows =
     (if data req \<noteq> [] then
        (case get_json req of
           None \<Rightarrow> (Inl (HTTPException 400), rows)
         | Some dat \<Rightarrow>
             (case py_get dat ''title'' of
                Inl e \<Rightarrow> (Inl e, rows)
              | Inr title_v \<Rightarrow>
                  (case py_get dat ''recipe'' of
                     Inl e \<Rightarrow> (Inl e, rows)
                   | Inr recipe_v \<Rightarrow>
                       (let recipe_s = (if recipe_v \<noteq> JNull then Some (dumps recipe_v) else None) in
                        case Drink_insert title_v recipe_s rows of
                          Inl e \<Rightarrow> (Inl e, rows)
                        | Inr (new_id, rows') \<Rightarrow>
                            (case first (filter (\<lambda>d. drink_id d = new_id) rows') of
                               None \<Rightarrow> (Inl PyError, rows')
                             | Some new_drink \<Rightarrow>
                                 (case Drink_long new_drink of
                                    Inl e \<Rightarrow> (Inl e, rows')
                                  | Inr l \<Rightarrow> (Inr (Some (success_drinks [l])), rows')))))))
      else (Inr None, rows))"

text \<open>
  \<open>PATCH /drinks/<id>\<close>. The recipe of the body is serialized where it is read and
  again where it is assigned to the drink.
\<close>

definition update_drink :: "claims \<Rightarrow> nat \<Rightarrow> request \<Rightarrow> db \<Rightarrow> view_result" where
  "update_drink payload i req rows =
     (case get_json req of
        None \<Rightarrow> (Inl (HTTPException 400), rows)
      | Some dat \<Rightarrow>
          if \<not> truthy dat then (Inl (HTTPException 409), rows)
          else
            (case py_get dat ''title'' of
               Inl e \<Rightarrow> (Inl e, rows)
             | Inr title_v \<Rightarrow>
                 (case py_get dat ''recipe'' of
                    Inl e \<Rightarrow> (Inl e, rows)
                  | Inr recipe_v \<Rightarrow>
                      (let recipe_s = (if recipe_v \<noteq> JNull then Some (dumps recipe_v) else None) in
                       case one_or_none (filter (\<lambda>d. drink_id d = i) rows) of
                         Inl e \<Rightarrow> (Inl e, rows)
                       | Inr None \<Rightarrow> (Inl (HTTPException 404), rows)
                       | Inr (Some d) \<Rightarrow>
                           (let drink_title = (if title_v \<noteq> JNull then title_v else JStr (title d));
                                drink_recipe = (case recipe_s of
                                                  Some r \<Rightarrow> dumps (JStr r)
                                                | None \<Rightarrow> recipe d) in
                            case Drink_update i drink_title drink_recipe rows of
                              Inl e \<Rightarrow> (Inl e, rows)
                            | Inr (d', rows') \<Rightarrow>
                                (case Drink_long d' of
                                   Inl e \<Rightarrow> (Inl e, rows')
                                 | Inr l \<Rightarrow> (Inr (Some (success_drinks [l])), rows')))))))"

text \<open>\<open>DELETE /drinks/<id>\<close>\<close>

definition delete_drink :: "claims \<Rightarrow> nat \<Rightarrow> db \<Rightarrow> view_result" where
  "delete_drink payload i rows =
     (case one_or_none (filter (\<lambda>d. drink_id d = i) rows) of
        Inl e \<Rightarrow> (Inl e, rows)
      | Inr None \<Rightarrow> (Inl (HTTPException 404), rows)
      | Inr (Some d) \<Rightarrow>
          (Inr (Some (jsonify (JObj [(''success'', JBool True), (''delete'', JInt (int i))]))),
           Drink_delete d rows))"

section \<open>Error handling\<close>

definition error_body :: "nat \<Rightarrow> string \<Rightarrow> response" where
  "error_body code msg =
     \<lparr>status = code,
      body = Json (JObj [(''success'', JBool False), (''error'', JInt (int code)), (''message'', JStr msg)])\<rparr>"

definition unprocessable :: response where
  "unprocessable = error_body 422 ''unprocessable''"

definition not_found :: response where
  "not_found = error_body 404 ''resource not found''"

text \<open>The source defines \<open>bad_request\<close> three times, for 401, 403 and 400.\<close>

definition bad_request_401 :: response where
  "bad_request_401 = error_body 401 ''Unauthenticated''"

definition bad_request_403 :: response where
  "bad_request_403 = error_body 403 ''Unauthorized''"

definition bad_request_400 :: response where
  "bad_request_400 = error_body 400 ''Bad request''"

definition method_not_allowed :: response where
  "method_not_allowed = error_body 405 ''Method not allowed''"

text \<open>The handlers registered with \<open>@app.errorhandler(code)\<close>.\<close>

definition errorhandler :: "nat \<Rightarrow> response option" where
  "errorhandler code =
     (if code = 422 then Some unprocessable
      else if code = 404 then Some not_found
      else if code = 401 then Some bad_request_401
      else if code = 403 then Some bad_request_403
      else if code = 400 then Some bad_request_400
      else if code = 405 then Some method_not_allowed
      else None)"

text \<open>
  The framework's answer to an \<open>HTTPException\<close>: the registered handler, or its default
  page with the status of the exception.
\<close>

definition handle_http_exception :: "nat \<Rightarrow> response" where
  "handle_http_exception code =
     (case errorhandler code of
        Some r \<Rightarrow> r
      | None \<Rightarrow> \<lparr>status = code, body = DefaultPage\<rparr>)"

text \<open>
  Modelled from the spec (7): an \<open>AuthError\<close> reaches the boundary as it was raised and is
  answered by the handler of the status of its kind. Any other exception is the
  framework's 500.
\<close>

fun handle_exception :: "exn \<Rightarrow> response" where
  "handle_exception (HTTPException code) = handle_http_exception code"
| "handle_exception (AuthError k) = handle_http_exception (auth_status k)"
| "handle_exception PyError = \<lparr>status = 500, body = DefaultPage\<rparr>"

section \<open>Dispatch\<close>

datatype endpoint =
    Get_drinks
  | Get_drink_details
  | Add_drinks
  | Update_drink nat
  | Delete_drink nat

text \<open>
  The routing rules of the \<open>@app.route\<close> decorators: an unknown URL is 404, a known URL
  with another method is 405. \<open>HEAD\<close> and \<open>OPTIONS\<close>, which the framework answers by
  itself, are not modelled.
\<close>

fun url_map :: "http_method \<Rightarrow> path \<Rightarrow> nat + endpoint" where
  "url_map GET Drinks = Inr Get_drinks"
| "url_map POST Drinks = Inr Add_drinks"
| "url_map _ Drinks = Inl 405"
| "url_map GET DrinksDetail = Inr Get_drink_details"
| "url_map _ DrinksDetail = Inl 405"
| "url_map PATCH (DrinkItem i) = Inr (Update_drink i)"
| "url_map DELETE (DrinkItem i) = Inr (Delete_drink i)"
| "url_map _ (DrinkItem i) = Inl 405"
| "url_map _ NoRoute = Inl 404"


text \<open>The decorated view functions.\<close>

fun view_function :: "auth_env \<Rightarrow> endpoint \<Rightarrow> request \<Rightarrow> db \<Rightarrow> view_result" where
  "view_function env Get_drinks req rows = get_drinks rows"
| "view_function env Get_drink_details req rows =
     requires_auth env ''get:drinks-detail'' get_drink_details req rows"
| "view_function env Add_drinks req rows =
     requires_auth env ''post:drinks'' (\<lambda>payload. add_drinks payload req) req rows"
| "view_function env (Update_drink i) req rows =
     requires_auth env ''patch:drinks'' (\<lambda>payload. update_drink payload i req) req rows"
| "view_function env (Delete_drink i) req rows =
     requires_auth env ''delete:drinks'' (\<lambda>payload. delete_drink payload i) req rows"

text \<open>
  One request: routing, the view function, and the translation of what it raised. A view
  function that returned nothing is a \<open>TypeError\<close> of the framework, hence its 500.
\<close>

definition full_dispatch_request :: "auth_env \<Rightarrow> request \<Rightarrow> db \<Rightarrow> response \<times> db" where
  "full_dispatch_request env req rows =
     (case url_map (req_method req) (url req) of
        Inl code \<Rightarrow> (handle_http_exception code, rows)
      | Inr e \<Rightarrow>
          (case view_function env e req rows of
             (Inl x, rows') \<Rightarrow> (handle_exception x, rows')
           | (Inr None, rows') \<Rightarrow> (\<lparr>status = 500, body = DefaultPage\<rparr>, rows')
           | (Inr (Some r), rows') \<Rightarrow> (r, rows')))"

section \<open>Sample data\<close>

text \<open>
  An identity provider that knows one token, of a manager holding every permission, a
  table with one drink, and requests to evaluate the routes on.
\<close>

definition manager_claims :: claims where
  "manager_claims =
     \<lparr>subject = ''auth0|manager'',
      permissions = Some [''get:drinks-detail'', ''post:drinks'', ''patch:drinks'', ''delete:drinks''],
      expiry = 0\<rparr>"

definition example_env :: auth_env where
  "example_env =
     \<lparr>verify_decode_jwt = (\<lambda>token. if token = ''manager'' then Inr manager_claims else Inl InvalidClaims),
      bearer = ''Bearer''\<rparr>"

definition example_recipe :: json where
  "example_recipe =
     JArr [JObj [(''color'', JStr ''white''), (''name'', JStr ''milk''), (''parts'', JInt 1)]]"

definition espresso_recipe :: json where
  "espresso_recipe =
     JArr [JObj [(''color'', JStr ''brown''), (''name'', JStr ''espresso''), (''parts'', JInt 2)]]"

definition example_rows :: db where
  "example_rows = [\<lparr>drink_id = 1, title = ''Latte'', recipe = dumps example_recipe\<rparr>]"

definition anonymous :: "http_method \<Rightarrow> path \<Rightarrow> request" where
  "anonymous m p =
     \<lparr>req_method = m, url = p, authorization = None, data = [], get_json = Some JNull\<rparr>"


definition manager :: "http_method \<Rightarrow> path \<Rightarrow> string \<Rightarrow> json \<Rightarrow> request" where
  "manager m p raw dat =
     \<lparr>req_method = m, url = p, authorization = Some ''Bearer manager'', data = raw,
      get_json = Some dat\<rparr>"

section \<open>Notions used in the proofs\<close>

text \<open>A number ends where no digit follows.\<close>

definition no_digit_ahead :: "string \<Rightarrow> bool" where
  "no_digit_ahead rest = (case rest of [] \<Rightarrow> True | c # _ \<Rightarrow> \<not> is_digit c)"

text \<open>The number of decoder calls a value takes.\<close>

fun nodes :: "json \<Rightarrow> nat" where
  "nodes (JArr xs) = Suc (sum_list (map (\<lambda>x. Suc (nodes x)) xs))"
| "nodes (JObj kvs) = Suc (sum_list (map (\<lambda>kv. Suc (nodes (snd kv))) kvs))"
| "nodes _ = 1"

text \<open>The characters a serialized value can start with.\<close>

definition value_start :: "char \<Rightarrow> bool" where
  "value_start c = (c = dquote \<or> c = CHR ''{'' \<or> c = CHR ''['' \<or> c = CHR ''n'' \<or> c = CHR ''t''
     \<or> c = CHR ''f'' \<or> c = CHR ''-'' \<or> is_digit c)"

definition pair_text :: "string \<times> json \<Rightarrow> string" where
  "pair_text kv = encode_basestring_ascii (fst kv) @ '': '' @ dumps (snd kv)"


section \<open>\<open>json.loads\<close> inverts \<open>json.dumps\<close>\<close>

subsection \<open>Strings\<close>

lemma char_eq_nat: "(c = d) = ((of_char c :: nat) = of_char d)"
  by simp

lemma unhex_hex_digit: "d < 16 \<Longrightarrow> unhex (hex_digit d) = Some d"
  by (auto simp: unhex_def hex_digit_def Let_def)

lemma unhex_zero: "unhex CHR ''0'' = Some 0"
  by (simp add: unhex_def)

lemma unhex4_escape:
  "unhex4 CHR ''0'' CHR ''0'' (hex_digit ((of_char c :: nat) div 16)) (hex_digit ((of_char c :: nat) mod 16))
     = Some (of_char c)"
proof -
  have "(of_char c :: nat) < 256" by simp
  then have "(of_char c :: nat) div 16 < 16" by (simp add: less_mult_imp_div_less)
  then show ?thesis
    by (simp add: unhex4_def unhex_zero unhex_hex_digit)
qed

lemma scanstring_escape_char:
  "scanstring (escape_char c @ t) = cons_result c (scanstring t)"
  by (auto simp: escape_char_def unescape_def unhex4_escape)

lemma scanstring_escape:
  "scanstring (concat (map escape_char s) @ dquote # rest) = Some (s, rest)"
  by (induction s) (simp_all add: scanstring_escape_char cons_result_def)


lemma is_digit_char_of: "(d::nat) < 10 \<Longrightarrow> is_digit (char_of (48 + d))"
  by (simp add: is_digit_def)

lemma str_nat_digits: "list_all is_digit (str_nat n)"
  by (induction n rule: str_nat.induct) (subst str_nat.simps, simp add: is_digit_char_of)

lemma str_nat_nonempty: "str_nat n \<noteq> []"
  by (subst str_nat.simps) simp

lemma char_of_48_eq_zero: "(d::nat) < 10 \<Longrightarrow> (char_of (48 + d) = CHR ''0'') = (d = 0)"
  by (simp add: char_eq_nat [of _ "CHR ''0''"] del: of_char_eq_iff)

lemma hd_str_nat: "(hd (str_nat n) = CHR ''0'') = (n = 0)"
proof (induction n rule: str_nat.induct)
  case (1 n)
  show ?case
  proof (cases "n < 10")
    case True
    then show ?thesis by (subst str_nat.simps) (simp add: char_of_48_eq_zero)
  next
    case False
    then have "hd (str_nat n) = hd (str_nat (n div 10))"
      by (subst str_nat.simps) (simp add: str_nat_nonempty)
    with False 1 show ?thesis by auto
  qed
qed

lemma dec_val_snoc: "dec_val (ds @ [c]) = 10 * dec_val ds + ((of_char c :: nat) - 48)"
  by (simp add: dec_val_def)

lemma dec_val_str_nat: "dec_val (str_nat n) = n"
proof (induction n rule: str_nat.induct)
  case (1 n)
  show ?case
  proof (cases "n < 10")
    case True
    then show ?thesis by (subst str_nat.simps) (simp add: dec_val_def)
  next
    case False
    with 1 show ?thesis by (subst str_nat.simps) (simp add: dec_val_snoc)
  qed
qed

lemma takeWhile_digits:
  "list_all is_digit ds \<Longrightarrow> no_digit_ahead rest \<Longrightarrow> takeWhile is_digit (ds @ rest) = ds"
  by (induction ds) (auto simp: no_digit_ahead_def split: list.splits)

lemma dropWhile_digits:
  "list_all is_digit ds \<Longrightarrow> no_digit_ahead rest \<Longrightarrow> dropWhile is_digit (ds @ rest) = rest"
  by (induction ds) (auto simp: no_digit_ahead_def split: list.splits)

lemma match_nat_str_nat:
  assumes "no_digit_ahead rest"
  shows "match_nat (str_nat n @ rest) = Some (n, rest)"
proof -
  obtain c ds where cd: "str_nat n = c # ds"
    using str_nat_nonempty [of n] by (cases "str_nat n") auto
  have dig: "is_digit c" "list_all is_digit ds"
    using str_nat_digits [of n] by (simp_all add: cd)
  show ?thesis
  proof (cases "n = 0")
    case True
    then show ?thesis
      using char_of_48_eq_zero [of 0] by (subst str_nat.simps) (simp add: match_nat_def)
  next
    case False
    then have "c \<noteq> CHR ''0''" using hd_str_nat [of n] cd by simp
    moreover have "dec_val (c # ds) = n" using dec_val_str_nat [of n] cd by simp
    moreover have "takeWhile is_digit (ds @ rest) = ds" "dropWhile is_digit (ds @ rest) = rest"
      using dig assms by (simp_all add: takeWhile_digits dropWhile_digits)
    ultimately show ?thesis using dig by (simp add: match_nat_def cd)
  qed
qed

lemma hd_str_nat_not_minus: "hd (str_nat n) \<noteq> CHR ''-''"
proof -
  have "is_digit (hd (str_nat n))"
    using str_nat_digits [of n] str_nat_nonempty [of n] by (cases "str_nat n") auto
  then show ?thesis by (auto simp: is_digit_def)
qed

lemma match_number_str_int:
  assumes "no_digit_ahead rest"
  shows "match_number (str_int i @ rest) = Some (i, rest)"
proof (cases "i < 0")
  case True
  then show ?thesis
    by (simp add: match_number_def str_int_def match_nat_str_nat [OF assms])
next
  case False
  obtain c ds where cd: "str_nat (nat i) = c # ds"
    using str_nat_nonempty [of "nat i"] by (cases "str_nat (nat i)") auto
  have "c \<noteq> CHR ''-''" using hd_str_nat_not_minus [of "nat i"] cd by simp
  moreover have "match_nat (c # ds @ rest) = Some (nat i, rest)"
    using match_nat_str_nat [OF assms, of "nat i"] cd by simp
  ultimately show ?thesis using False
    by (simp add: match_number_def str_int_def cd)
qed


lemma dumps_JObj: "dumps (JObj kvs) = ''{'' @ join_items (map pair_text kvs) @ ''}''"
  by (simp add: pair_text_def [abs_def])

lemma str_nat_start: "\<exists>c t. str_nat n = c # t \<and> is_digit c"
  using str_nat_digits [of n] str_nat_nonempty [of n] by (cases "str_nat n") auto

lemma dumps_start: "\<exists>c t. dumps v = c # t \<and> value_start c"
proof (cases v)
  case (JInt i)
  then show ?thesis using str_nat_start [of "nat i"] str_nat_start [of "nat (- i)"]
    by (auto simp: str_int_def value_start_def)
qed (auto simp: value_start_def encode_basestring_ascii_def)

lemma value_start_not_ws: "value_start c \<Longrightarrow> \<not> is_ws c"
  by (auto simp: value_start_def is_ws_def is_digit_def)

lemma skip_ws_start: "value_start c \<Longrightarrow> skip_ws (c # t) = c # t"
  by (simp add: skip_ws_def value_start_not_ws)

lemma skip_ws_dumps: "skip_ws (dumps v @ t) = dumps v @ t"
  using dumps_start [of v] by (auto simp: skip_ws_start)

lemma join_items_start:
  "xs \<noteq> [] \<Longrightarrow> \<exists>c t. join_items (map dumps xs) @ r = c # t \<and> value_start c"
proof (cases xs)
  case (Cons x ys)
  obtain c t where "dumps x = c # t" "value_start c" using dumps_start by blast
  with Cons show ?thesis by (cases ys) auto
qed simp

lemma no_digit_ahead_simps:
  "no_digit_ahead []" "no_digit_ahead (CHR '']'' # t)" "no_digit_ahead (CHR ''}'' # t)"
  "no_digit_ahead (CHR '','' # t)"
  by (simp_all add: no_digit_ahead_def is_digit_def)

lemma skip_ws_not_ws: "\<not> is_ws c \<Longrightarrow> skip_ws (c # t) = c # t"
  by (simp add: skip_ws_def)

lemma skip_ws_space: "skip_ws (CHR '' '' # t) = skip_ws t"
  by (simp add: skip_ws_def is_ws_def)

lemma not_ws_punct: "\<not> is_ws (CHR '']'')" "\<not> is_ws (CHR ''}'')" "\<not> is_ws (CHR '','')" "\<not> is_ws (CHR '':'')"
  "\<not> is_ws dquote"
  by (simp_all add: is_ws_def)

lemma array_loop_dumps:
  assumes elems: "\<And>x n rest. x \<in> set xs \<Longrightarrow> nodes x \<le> n \<Longrightarrow> no_digit_ahead rest \<Longrightarrow>
                    scan_once n (dumps x @ rest) = Some (x, rest)"
    and "xs \<noteq> []"
    and "sum_list (map (\<lambda>x. Suc (nodes x)) xs) \<le> n"
  shows "array_loop n acc (join_items (map dumps xs) @ CHR '']'' # rest) = Some (JArr (acc @ xs), rest)"
  using assms
proof (induction xs arbitrary: n acc rule: induct_list012)
  case 1
  then show ?case by simp
next
  case (2 x)
  then obtain m where n: "n = Suc m" and m: "nodes x \<le> m" by (cases n) auto
  have "scan_once m (dumps x @ CHR '']'' # rest) = Some (x, CHR '']'' # rest)"
    using "2.prems"(1) m by (simp add: no_digit_ahead_simps)
  then show ?case by (simp add: n skip_ws_not_ws not_ws_punct)
next
  case (3 x y zs)
  then obtain m where n: "n = Suc m" and m: "nodes x \<le> m"
    and m': "sum_list (map (\<lambda>x. Suc (nodes x)) (y # zs)) \<le> m" by (cases n) auto
  let ?tail = "join_items (map dumps (y # zs)) @ CHR '']'' # rest"
  have "scan_once m (dumps x @ CHR '','' # CHR '' '' # ?tail) = Some (x, CHR '','' # CHR '' '' # ?tail)"
    using "3.prems"(1) m by (simp add: no_digit_ahead_simps)
  moreover have "skip_ws (CHR '' '' # ?tail) = ?tail"
  proof -
    obtain c t where "?tail = c # t" "value_start c"
      using join_items_start [of "y # zs" "CHR '']'' # rest"] by auto
    then show ?thesis by (simp add: skip_ws_space skip_ws_start)
  qed
  moreover have "array_loop m (acc @ [x]) ?tail = Some (JArr ((acc @ [x]) @ y # zs), rest)"
    using "3.IH"(2) [of m "acc @ [x]"] "3.prems"(1) m' by simp
  ultimately show ?case by (simp add: n skip_ws_not_ws not_ws_punct)
qed


lemma pairs_start:
  "kvs \<noteq> [] \<Longrightarrow> \<exists>t. join_items (map pair_text kvs) @ r = dquote # t"
proof (cases kvs)
  case (Cons kv ys)
  then show ?thesis by (cases ys) (auto simp: pair_text_def encode_basestring_ascii_def)
qed simp

lemma object_loop_dumps:
  assumes elems: "\<And>kv n rest. kv \<in> set kvs \<Longrightarrow> nodes (snd kv) \<le> n \<Longrightarrow> no_digit_ahead rest \<Longrightarrow>
                    scan_once n (dumps (snd kv) @ rest) = Some (snd kv, rest)"
    and "kvs \<noteq> []"
    and "sum_list (map (\<lambda>kv. Suc (nodes (snd kv))) kvs) \<le> n"
    and "join_items (map pair_text kvs) @ CHR ''}'' # rest = dquote # s"
  shows "object_loop n acc s = Some (JObj (dict_of_pairs (acc @ kvs)), rest)"
  using assms
proof (induction kvs arbitrary: n acc s rule: induct_list012)
  case 1
  then show ?case by simp
next
  case (2 kv)
  obtain k v where kv: "kv = (k, v)" by (cases kv)
  from 2 obtain m where n: "n = Suc m" and m: "nodes v \<le> m" by (cases n) (auto simp: kv)
  have s: "s = concat (map escape_char k) @ dquote # CHR '':'' # CHR '' '' # dumps v @ CHR ''}'' # rest"
    using "2.prems"(4) by (simp add: kv pair_text_def encode_basestring_ascii_def)
  have "scan_once m (dumps v @ CHR ''}'' # rest) = Some (v, CHR ''}'' # rest)"
    using "2.prems"(1) [of kv m "CHR ''}'' # rest"] m by (simp add: kv no_digit_ahead_simps)
  then show ?case
    by (simp add: n s kv scanstring_escape skip_ws_not_ws not_ws_punct skip_ws_space skip_ws_dumps)
next
  case (3 kv y zs)
  obtain k v where kv: "kv = (k, v)" by (cases kv)
  from 3 obtain m where n: "n = Suc m" and m: "nodes v \<le> m"
    and m': "sum_list (map (\<lambda>kv. Suc (nodes (snd kv))) (y # zs)) \<le> m" by (cases n) (auto simp: kv)
  let ?tail = "join_items (map pair_text (y # zs)) @ CHR ''}'' # rest"
  obtain t where t: "?tail = dquote # t"
    using pairs_start [of "y # zs" "CHR ''}'' # rest"] by auto
  have s: "s = concat (map escape_char k) @ dquote # CHR '':'' # CHR '' '' # dumps v @ CHR '','' # CHR '' '' # ?tail"
  proof -
    have "pair_text kv = dquote # concat (map escape_char k) @ dquote # CHR '':'' # CHR '' '' # dumps v"
      by (simp add: kv pair_text_def encode_basestring_ascii_def)
    then show ?thesis using "3.prems"(4) by simp
  qed
  have v: "scan_once m (dumps v @ CHR '','' # CHR '' '' # ?tail) = Some (v, CHR '','' # CHR '' '' # ?tail)"
    using "3.prems"(1) [of kv m "CHR '','' # CHR '' '' # ?tail"] m by (simp add: kv no_digit_ahead_simps)
  have "object_loop m (acc @ [kv]) t = Some (JObj (dict_of_pairs ((acc @ [kv]) @ y # zs)), rest)"
    using "3.IH"(2) [of m t "acc @ [kv]"] "3.prems"(1) m' t by simp
  then show ?case
    using v t
    by (simp add: n s kv scanstring_escape skip_ws_not_ws not_ws_punct skip_ws_space skip_ws_dumps)
qed

lemma update_fresh: "k \<notin> fst ` set d \<Longrightarrow> AList.update k v d = d @ [(k, v)]"
  by (induction d) auto

lemma foldl_update_distinct:
  "distinct (map fst (d @ ps)) \<Longrightarrow>
   foldl (\<lambda>d kv. AList.update (fst kv) (snd kv) d) d ps = d @ ps"
proof (induction ps arbitrary: d)
  case Nil
  then show ?case by simp
next
  case (Cons p ps)
  have "AList.update (fst p) (snd p) d = d @ [p]"
    using Cons.prems by (simp add: update_fresh)
  moreover have "distinct (map fst ((d @ [p]) @ ps))" using Cons.prems by simp
  ultimately show ?case using Cons.IH [of "d @ [p]"] by simp
qed

lemma dict_of_pairs_distinct: "distinct (map fst ps) \<Longrightarrow> dict_of_pairs ps = ps"
  using foldl_update_distinct [of "[]" ps] by (simp add: dict_of_pairs_def)

lemma scan_once_dumps:
  "wf_json v \<Longrightarrow> nodes v \<le> n \<Longrightarrow> no_digit_ahead rest \<Longrightarrow>
   scan_once n (dumps v @ rest) = Some (v, rest)"
proof (induction v arbitrary: n rest)
  case JNull
  then obtain m where "n = Suc m" by (cases n) auto
  then show ?case by simp
next
  case (JBool b)
  then obtain m where "n = Suc m" by (cases n) auto
  then show ?case by simp
next
  case (JInt i)
  then obtain m where n: "n = Suc m" by (cases n) auto
  have "\<exists>c t. str_int i = c # t \<and> (c = CHR ''-'' \<or> is_digit c)"
    using str_nat_start [of "nat i"] by (cases "i < 0") (auto simp: str_int_def)
  then obtain c t where ct: "str_int i = c # t" and c: "c = CHR ''-'' \<or> is_digit c"
    by blast
  have "match_number (c # t @ rest) = Some (i, rest)"
    using match_number_str_int [OF JInt.prems(3), of i] ct by simp
  moreover have "c \<noteq> dquote" "c \<noteq> CHR ''{''" "c \<noteq> CHR ''[''" "c \<noteq> CHR ''n''" "c \<noteq> CHR ''t''" "c \<noteq> CHR ''f''"
    using c by (auto simp: is_digit_def)
  ultimately show ?case by (simp add: n ct)
next
  case (JStr s)
  then obtain m where "n = Suc m" by (cases n) auto
  then show ?case by (simp add: encode_basestring_ascii_def scanstring_escape)
next
  case (JArr xs)
  then obtain m where n: "n = Suc m" and m: "sum_list (map (\<lambda>x. Suc (nodes x)) xs) \<le> m"
    by (cases n) auto
  show ?case
  proof (cases "xs = []")
    case True
    then show ?thesis by (simp add: n skip_ws_not_ws not_ws_punct)
  next
    case False
    let ?body = "join_items (map dumps xs) @ CHR '']'' # rest"
    obtain c t where ct: "?body = c # t" and c: "value_start c"
      using join_items_start [OF False] by blast
    have elems: "\<And>x n rest. x \<in> set xs \<Longrightarrow> nodes x \<le> n \<Longrightarrow> no_digit_ahead rest \<Longrightarrow>
                   scan_once n (dumps x @ rest) = Some (x, rest)"
      using JArr.IH JArr.prems(1) by (simp add: list_all_iff)
    have "array_loop m [] ?body = Some (JArr ([] @ xs), rest)"
      by (rule array_loop_dumps [OF elems False m])
    moreover have "c \<noteq> CHR '']''" using c by (auto simp: value_start_def is_digit_def)
    ultimately show ?thesis using ct c by (simp add: n skip_ws_start)
  qed
next
  case (JObj kvs)
  then obtain m where n: "n = Suc m" and m: "sum_list (map (\<lambda>kv. Suc (nodes (snd kv))) kvs) \<le> m"
    by (cases n) auto
  show ?case
  proof (cases "kvs = []")
    case True
    then show ?thesis by (simp add: n skip_ws_not_ws not_ws_punct)
  next
    case False
    let ?body = "join_items (map pair_text kvs) @ CHR ''}'' # rest"
    obtain t where t: "?body = dquote # t"
      using pairs_start [OF False] by blast
    have elems: "\<And>kv n rest. kv \<in> set kvs \<Longrightarrow> nodes (snd kv) \<le> n \<Longrightarrow> no_digit_ahead rest \<Longrightarrow>
                   scan_once n (dumps (snd kv) @ rest) = Some (snd kv, rest)"
    proof -
      fix kv :: "string \<times> json" and n rest
      assume a: "kv \<in> set kvs" "nodes (snd kv) \<le> n" "no_digit_ahead rest"
      obtain k v where kv: "kv = (k, v)" by (cases kv)
      have "wf_json v" using JObj.prems(1) a(1) by (auto simp: list_all_iff kv)
      then show "scan_once n (dumps (snd kv) @ rest) = Some (snd kv, rest)"
        using JObj.IH [of kv v n rest] a by (simp add: kv)
    qed
    have "object_loop m [] t = Some (JObj (dict_of_pairs ([] @ kvs)), rest)"
      by (rule object_loop_dumps [OF elems False m t])
    moreover have "dict_of_pairs kvs = kvs"
      using JObj.prems(1) by (simp add: dict_of_pairs_distinct)
    ultimately show ?thesis
      using t by (simp add: n dumps_JObj skip_ws_not_ws not_ws_punct del: dumps.simps)
  qed
qed

lemma join_items_bound:
  assumes "\<And>x. x \<in> set xs \<Longrightarrow> g x \<le> length (f x)"
  shows "sum_list (map (\<lambda>x. Suc (g x)) xs) \<le> Suc (length (join_items (map f xs)))"
  using assms
proof (induction xs rule: induct_list012)
  case (3 x y zs)
  have "g x \<le> length (f x)" using "3.prems" by simp
  moreover have "sum_list (map (\<lambda>x. Suc (g x)) (y # zs)) \<le> Suc (length (join_items (map f (y # zs))))"
    using "3.IH"(2) "3.prems" by simp
  ultimately show ?case by simp
qed simp_all

lemma nodes_le_length: "nodes v \<le> length (dumps v)"
proof (induction v)
  case (JArr xs)
  have "sum_list (map (\<lambda>x. Suc (nodes x)) xs) \<le> Suc (length (join_items (map dumps xs)))"
    using JArr.IH by (rule join_items_bound)
  then show ?case by simp
next
  case (JObj kvs)
  have "sum_list (map (\<lambda>kv. Suc (nodes (snd kv))) kvs) \<le> Suc (length (join_items (map pair_text kvs)))"
  proof (rule join_items_bound)
    fix kv :: "string \<times> json"
    assume a: "kv \<in> set kvs"
    obtain k v where kv: "kv = (k, v)" by (cases kv)
    have "nodes v \<le> length (dumps v)" using JObj.IH [of kv v] a by (simp add: kv)
    then show "nodes (snd kv) \<le> length (pair_text kv)" by (simp add: kv pair_text_def)
  qed
  then show ?case by (simp add: dumps_JObj del: dumps.simps)
next
  case (JInt i)
  then show ?case using str_nat_nonempty [of "nat i"]
    by (cases "str_nat (nat i)") (auto simp: str_int_def)
qed (simp_all add: encode_basestring_ascii_def)

lemma loads_dumps: "wf_json v \<Longrightarrow> loads (dumps v) = Some v"
  using scan_once_dumps [of v "length (dumps v)" "[]"] skip_ws_dumps [of v "[]"]
  by (simp add: loads_def nodes_le_length no_digit_ahead_simps skip_ws_def)

section \<open>Authorization failures at the boundary\<close>


lemma requires_auth_pass:
  "authorize env p req = Inr payload \<Longrightarrow> requires_auth env p f req rows = f payload rows"
  by (simp add: requires_auth_def)




section \<open>The shape of error responses\<close>

lemma status_success_drinks: "status (success_drinks ds) = 200"
  by (simp add: success_drinks_def jsonify_def)

lemma get_drinks_status:
  "get_drinks rows = (Inr (Some r), rows') \<Longrightarrow> status r = 200"
  by (auto simp: get_drinks_def status_success_drinks split: sum.splits)

lemma get_drink_details_status:
  "get_drink_details payload rows = (Inr (Some r), rows') \<Longrightarrow> status r = 200"
  by (auto simp: get_drink_details_def status_success_drinks split: sum.splits)

lemma add_drinks_status:
  "add_drinks payload req rows = (Inr (Some r), rows') \<Longrightarrow> status r = 200"
  by (auto simp: add_drinks_def Let_def status_success_drinks
      split: sum.splits option.splits if_splits prod.splits)

lemma update_drink_status:
  "update_drink payload i req rows = (Inr (Some r), rows') \<Longrightarrow> status r = 200"
  by (auto simp: update_drink_def Let_def status_success_drinks
      split: sum.splits option.splits if_splits prod.splits)

lemma delete_drink_status:
  "delete_drink payload i rows = (Inr (Some r), rows') \<Longrightarrow> status r = 200"
  by (auto simp: delete_drink_def jsonify_def split: sum.splits option.splits)

lemma requires_auth_cases:
  "requires_auth env p f req rows = (res, rows') \<Longrightarrow>
   (\<exists>k. res = Inl (AuthError k) \<and> rows' = rows \<and> authorize env p req = Inl k) \<or>
   (\<exists>payload. authorize env p req = Inr payload \<and> f payload rows = (res, rows'))"
  by (auto simp: requires_auth_def split: sum.splits)

lemma view_function_status:
  assumes "view_function env e req rows = (Inr (Some r), rows')"
  shows "status r = 200"
proof (cases e)
  case Get_drinks
  then show ?thesis using assms by (simp add: get_drinks_status)
next
  case Get_drink_details
  then show ?thesis using assms
    by (auto dest!: requires_auth_cases dest: get_drink_details_status)
next
  case Add_drinks
  then show ?thesis using assms
    by (auto dest!: requires_auth_cases dest: add_drinks_status)
next
  case (Update_drink i)
  then show ?thesis using assms
    by (auto dest!: requires_auth_cases dest: update_drink_status)
next
  case (Delete_drink i)
  then show ?thesis using assms
    by (auto dest!: requires_auth_cases dest: delete_drink_status)
qed

lemma handle_http_exception_shape:
  "status (handle_http_exception code) = code \<and>
   (code \<in> {400, 401, 403, 404, 405, 422} \<longrightarrow>
      (\<exists>msg. body (handle_http_exception code) =
         Json (JObj [(''success'', JBool False), (''error'', JInt (int code)), (''message'', JStr msg)])))"
  by (simp add: handle_http_exception_def errorhandler_def unprocessable_def not_found_def
      bad_request_401_def bad_request_403_def bad_request_400_def method_not_allowed_def
      error_body_def)

lemma handle_exception_shape:
  assumes "status (handle_exception x) \<in> {400, 401, 403, 404, 405, 422}"
  shows "\<exists>msg. body (handle_exception x) =
           Json (JObj [(''success'', JBool False), (''error'', JInt (int (status (handle_exception x)))),
                       (''message'', JStr msg)])"
proof (cases x)
  case (HTTPException code)
  then show ?thesis using assms handle_http_exception_shape [of code] by simp
next
  case (AuthError k)
  then show ?thesis using assms handle_http_exception_shape [of "auth_status k"] by simp
next
  case PyError
  then show ?thesis using assms by simp
qed

text \<open>
  C9. Whatever the request and the table, a response whose status is one of 400, 401,
  403, 404, 405 and 422 has the body \<open>{success: false, error: status, message: text}\<close>,
  where \<open>error\<close> is the status of the response itself.
\<close>

theorem error_response_shape:
  assumes "full_dispatch_request env req rows = (resp, rows')"
    and "status resp \<in> {400, 401, 403, 404, 405, 422}"
  shows "\<exists>msg. body resp =
           Json (JObj [(''success'', JBool False), (''error'', JInt (int (status resp))),
                       (''message'', JStr msg)])"
proof (cases "url_map (req_method req) (url req)")
  case (Inl code)
  then have "resp = handle_http_exception code"
    using assms(1) by (simp add: full_dispatch_request_def)
  then show ?thesis using assms(2) handle_http_exception_shape [of code] by simp
next
  case (Inr e)
  obtain res rows1 where v: "view_function env e req rows = (res, rows1)"
    by (cases "view_function env e req rows")
  show ?thesis
  proof (cases res)
    case (Inl x)
    then have "resp = handle_exception x"
      using assms(1) Inr v by (simp add: full_dispatch_request_def)
    then show ?thesis using assms(2) handle_exception_shape [of x] by simp
  next
    case r: (Inr ro)
    show ?thesis
    proof (cases ro)
      case None
      then have "status resp = 500"
        using assms(1) Inr v r by (auto simp: full_dispatch_request_def)
      then show ?thesis using assms(2) by simp
    next
      case (Some r')
      then have "resp = r'" using assms(1) Inr v r by (simp add: full_dispatch_request_def)
      moreover have "status r' = 200" using v r Some view_function_status by blast
      ultimately show ?thesis using assms(2) by simp
    qed
  qed
qed

theorem error_response_shape_witness:
  "full_dispatch_request example_env (anonymous PUT NoRoute) example_rows = (not_found, example_rows) \<and>
   status not_found \<in> {400, 401, 403, 404, 405, 422} \<and>
   (\<exists>msg. body not_found =
      Json (JObj [(''success'', JBool False), (''error'', JInt (int (status not_found))),
                  (''message'', JStr msg)]))"
proof -
  have d: "full_dispatch_request example_env (anonymous PUT NoRoute) example_rows = (not_found, example_rows)"
    by (simp add: full_dispatch_request_def anonymous_def handle_http_exception_def errorhandler_def)
  have s: "status not_found \<in> {400, 401, 403, 404, 405, 422}"
    by (simp add: not_found_def error_body_def)
  show ?thesis using d s error_response_shape [OF d s] by simp
qed

section \<open>\<open>PATCH\<close> with an empty body\<close>

lemma dispatch_view:
  "url_map (req_method req) (url req) = Inr e \<Longrightarrow>
   view_function env e req rows = (res, rows') \<Longrightarrow>
   full_dispatch_request env req rows =
     (case res of
        Inl x \<Rightarrow> handle_exception x
      | Inr None \<Rightarrow> \<lparr>status = 500, body = DefaultPage\<rparr>
      | Inr (Some r) \<Rightarrow> r, rows')"
  by (simp add: full_dispatch_request_def split: sum.splits option.splits)

lemma update_drink_falsy:
  "get_json req = Some dat \<Longrightarrow> \<not> truthy dat \<Longrightarrow>
   update_drink payload i req rows = (Inl (HTTPException 409), rows)"
  by (simp add: update_drink_def)

lemma conflict_response: "handle_http_exception 409 = \<lparr>status = 409, body = DefaultPage\<rparr>"
  by (simp add: handle_http_exception_def errorhandler_def)

lemma not_found_response: "handle_http_exception 404 = not_found"
  by (simp add: handle_http_exception_def errorhandler_def)

lemma filter_id_empty: "i \<notin> set (map drink_id rows) \<Longrightarrow> filter (\<lambda>d. drink_id d = i) rows = []"
  by (induction rows) auto

lemma update_drink_not_found:
  "get_json req = Some (JObj kvs) \<Longrightarrow> kvs \<noteq> [] \<Longrightarrow> i \<notin> set (map drink_id rows) \<Longrightarrow>
   update_drink payload i req rows = (Inl (HTTPException 404), rows)"
  by (simp add: update_drink_def filter_id_empty Let_def)

lemma patch_falsy_dispatch:
  assumes "req_method req = PATCH" "url req = DrinkItem i"
    and "authorize env ''patch:drinks'' req = Inr payload"
    and "get_json req = Some dat" "\<not> truthy dat"
  shows "full_dispatch_request env req rows = (\<lparr>status = 409, body = DefaultPage\<rparr>, rows)"
proof -
  have "view_function env (Update_drink i) req rows = (Inl (HTTPException 409), rows)"
    using assms(3-5) by (simp add: requires_auth_pass update_drink_falsy)
  then show ?thesis
    using dispatch_view [of req "Update_drink i" env rows] assms(1,2)
    by (simp add: conflict_response)
qed

lemma patch_not_found_dispatch:
  assumes "req_method req = PATCH" "url req = DrinkItem i"
    and "authorize env ''patch:drinks'' req = Inr payload"
    and "get_json req = Some (JObj kvs)" "kvs \<noteq> []"
    and "i \<notin> set (map drink_id rows)"
  shows "full_dispatch_request env req rows = (not_found, rows)"
proof -
  have "view_function env (Update_drink i) req rows = (Inl (HTTPException 404), rows)"
    using assms(3-6) by (simp add: requires_auth_pass update_drink_not_found)
  then show ?thesis
    using dispatch_view [of req "Update_drink i" env rows] assms(1,2)
    by (simp add: not_found_response)
qed

lemma authorize_manager:
  "p \<in> {''get:drinks-detail'', ''post:drinks'', ''patch:drinks'', ''delete:drinks''} \<Longrightarrow>
   authorize example_env p (manager m u raw dat) = Inr manager_claims"
  by (auto simp: authorize_def get_token_auth_header_def example_env_def manager_def
      check_permissions_def manager_claims_def)




text \<open>
  C4. For a \<open>PATCH /drinks/<id>\<close> that passes the guard, the check of the body comes before
  the lookup of the drink: with an empty body and no drink of that identifier the view
  function aborts with 409, not with 404, and that is the status of the response.
\<close>

theorem patch_empty_body_before_lookup:
  assumes "req_method req = PATCH" "url req = DrinkItem i"
    and "authorize env ''patch:drinks'' req = Inr payload"
    and "get_json req = Some dat" "\<not> truthy dat"
    and "i \<notin> set (map drink_id rows)"
  shows "update_drink payload i req rows = (Inl (HTTPException 409), rows) \<and>
         full_dispatch_request env req rows = (\<lparr>status = 409, body = DefaultPage\<rparr>, rows)"
  using assms(1-5) by (simp add: patch_falsy_dispatch update_drink_falsy)

theorem patch_empty_body_before_lookup_witness:
  "(7 \<notin> set (map drink_id example_rows)) \<and>
   full_dispatch_request example_env (manager PATCH (DrinkItem 7) [] JNull) example_rows =
     (\<lparr>status = 409, body = DefaultPage\<rparr>, example_rows) \<and>
   full_dispatch_request example_env (manager PATCH (DrinkItem 7) ''x'' (JObj [(''title'', JStr ''Mocha'')])) example_rows =
     (not_found, example_rows)"
proof -
  have e: "7 \<notin> set (map drink_id example_rows)" by (simp add: example_rows_def)
  have a: "authorize example_env ''patch:drinks'' (manager PATCH (DrinkItem 7) raw dat) =
      Inr manager_claims" for raw dat
    by (rule authorize_manager) simp
  have nf: "full_dispatch_request example_env (manager PATCH (DrinkItem 7) ''x'' (JObj [(''title'', JStr ''Mocha'')])) example_rows =
     (not_found, example_rows)"
    by (rule patch_not_found_dispatch [where kvs = "[(''title'', JStr ''Mocha'')]", OF _ _ a _ _ e])
      (simp_all add: manager_def)
  show ?thesis
    using e nf patch_empty_body_before_lookup [OF _ _ a [of "[]" JNull] _ _ e]
    by (simp add: manager_def)
qed

section \<open>\<open>DELETE /drinks/<id>\<close>\<close>

lemma filter_id_single:
  "distinct (map drink_id rows) \<Longrightarrow> i \<in> set (map drink_id rows) \<Longrightarrow>
   \<exists>d. filter (\<lambda>d. drink_id d = i) rows = [d] \<and> drink_id d = i"
proof (induction rows)
  case Nil
  then show ?case by simp
next
  case (Cons r rows)
  show ?case
  proof (cases "drink_id r = i")
    case True
    then have "i \<notin> set (map drink_id rows)" using Cons.prems(1) by auto
    then have "filter (\<lambda>d. drink_id d = i) rows = []" by (rule filter_id_empty)
    then show ?thesis using True by simp
  next
    case False
    then show ?thesis using Cons by auto
  qed
qed

lemma not_found_json:
  "not_found =
     \<lparr>status = 404,
      body = Json (JObj [(''success'', JBool False), (''error'', JInt 404),
                         (''message'', JStr ''resource not found'')])\<rparr>"
  by (simp add: not_found_def error_body_def)

text \<open>
  C5. A \<open>DELETE /drinks/<id>\<close> that passes the guard for \<open>delete:drinks\<close>, on a table whose
  identifiers are unique: without a drink of that identifier the response is 404 with
  the message \<open>resource not found\<close> and the table is unchanged; with one, the response is
  200 with \<open>{success: true, delete: id}\<close> and the drink is gone from the table.
\<close>

theorem delete_drink_response:
  assumes "req_method req = DELETE" "url req = DrinkItem i"
    and "authorize env ''delete:drinks'' req = Inr payload"
    and "distinct (map drink_id rows)"
  shows "full_dispatch_request env req rows =
           (if i \<in> set (map drink_id rows)
            then (\<lparr>status = 200,
                   body = Json (JObj [(''success'', JBool True), (''delete'', JInt (int i))])\<rparr>,
                  filter (\<lambda>d. drink_id d \<noteq> i) rows)
            else (\<lparr>status = 404,
                   body = Json (JObj [(''success'', JBool False), (''error'', JInt 404),
                                      (''message'', JStr ''resource not found'')])\<rparr>, rows))"
proof (cases "i \<in> set (map drink_id rows)")
  case True
  then obtain d where d: "filter (\<lambda>d. drink_id d = i) rows = [d]" "drink_id d = i"
    using filter_id_single [OF assms(4)] by blast
  then have "view_function env (Delete_drink i) req rows =
      (Inr (Some (jsonify (JObj [(''success'', JBool True), (''delete'', JInt (int i))]))),
       filter (\<lambda>d. drink_id d \<noteq> i) rows)"
    using assms(3) by (simp add: requires_auth_pass delete_drink_def Drink_delete_def)
  then show ?thesis
    using True dispatch_view [of req "Delete_drink i" env rows] assms(1,2)
    by (simp add: jsonify_def)
next
  case False
  then have "filter (\<lambda>d. drink_id d = i) rows = []" by (rule filter_id_empty)
  then have "view_function env (Delete_drink i) req rows = (Inl (HTTPException 404), rows)"
    using assms(3) by (simp add: requires_auth_pass delete_drink_def)
  then show ?thesis
    using False dispatch_view [of req "Delete_drink i" env rows] assms(1,2)
    by (simp add: not_found_response not_found_json)
qed

theorem delete_drink_response_witness:
  "distinct (map drink_id example_rows) \<and>
   full_dispatch_request example_env (manager DELETE (DrinkItem 1) [] JNull) example_rows =
     (\<lparr>status = 200, body = Json (JObj [(''success'', JBool True), (''delete'', JInt 1)])\<rparr>, []) \<and>
   full_dispatch_request example_env (manager DELETE (DrinkItem 2) [] JNull) example_rows =
     (\<lparr>status = 404,
       body = Json (JObj [(''success'', JBool False), (''error'', JInt 404),
                          (''message'', JStr ''resource not found'')])\<rparr>, example_rows)"
proof -
  have dis: "distinct (map drink_id example_rows)" by (simp add: example_rows_def)
  have a: "authorize example_env ''delete:drinks'' (manager DELETE (DrinkItem j) [] JNull) =
      Inr manager_claims" for j
    by (rule authorize_manager) simp
  have m: "req_method (manager DELETE (DrinkItem j) [] JNull) = DELETE"
    "url (manager DELETE (DrinkItem j) [] JNull) = DrinkItem j" for j
    by (simp_all add: manager_def)
  show ?thesis
    using dis delete_drink_response [OF m(1) m(2) a dis, of 1]
      delete_drink_response [OF m(1) m(2) a dis, of 2]
    by (simp add: example_rows_def)
qed

section \<open>\<open>POST /drinks\<close> with an empty body\<close>

text \<open>
  C10. A \<open>POST /drinks\<close> that passes the guard for \<open>post:drinks\<close> and has no body: the test
  \<open>if request.data\<close> fails and \<open>add_drinks\<close> ends without returning anything. The table is
  unchanged and the response is the framework's 500 page, which is neither the 200 answer
  nor one of the JSON error bodies.
\<close>

theorem add_drinks_empty_body_returns_nothing:
  assumes "req_method req = POST" "url req = Drinks"
    and "authorize env ''post:drinks'' req = Inr payload"
    and "data req = []"
  shows "add_drinks payload req rows = (Inr None, rows) \<and>
         full_dispatch_request env req rows = (\<lparr>status = 500, body = DefaultPage\<rparr>, rows)"
proof -
  have r: "add_drinks payload req rows = (Inr None, rows)"
    using assms(4) by (simp add: add_drinks_def)
  then have "view_function env Add_drinks req rows = (Inr None, rows)"
    using assms(3) by (simp add: requires_auth_pass)
  then show ?thesis
    using r dispatch_view [of req Add_drinks env rows] assms(1,2) by simp
qed

theorem add_drinks_empty_body_returns_nothing_witness:
  "data (manager POST Drinks [] JNull) = [] \<and>
   full_dispatch_request example_env (manager POST Drinks [] JNull) example_rows =
     (\<lparr>status = 500, body = DefaultPage\<rparr>, example_rows)"
proof -
  have a: "authorize example_env ''post:drinks'' (manager POST Drinks [] JNull) =
      Inr manager_claims"
    by (rule authorize_manager) simp
  show ?thesis
    using add_drinks_empty_body_returns_nothing [OF _ _ a, of example_rows]
    by (simp add: manager_def)
qed

section \<open>\<open>PATCH /drinks/<id>\<close>: what a successful update does\<close>

lemma py_get_Inr: "py_get dat k = Inr v \<Longrightarrow> \<exists>kvs. dat = JObj kvs \<and> v = (case map_of kvs k of None \<Rightarrow> JNull | Some w \<Rightarrow> w)"
  by (cases dat) auto

lemma one_or_none_Some: "one_or_none xs = Inr (Some d) \<Longrightarrow> xs = [d]"
  by (cases xs rule: one_or_none.cases) auto

lemma Drink_update_Inr:
  "Drink_update i tv r rows = Inr (d', rows') \<Longrightarrow>
   \<exists>t. tv = JStr t \<and> d' = \<lparr>drink_id = i, title = t, recipe = r\<rparr> \<and>
       rows' = map (\<lambda>d. if drink_id d = i then d\<lparr>title := t, recipe := r\<rparr> else d) rows"
  by (cases tv) (auto split: if_splits)

lemma update_drink_success:
  assumes "update_drink payload i req rows = (Inr (Some resp), rows')"
  obtains kvs d t r l where
    "get_json req = Some (JObj kvs)" "kvs \<noteq> []"
    "filter (\<lambda>d. drink_id d = i) rows = [d]"
    "(case map_of kvs ''title'' of None \<Rightarrow> JStr (title d) | Some v \<Rightarrow> if v \<noteq> JNull then v else JStr (title d)) = JStr t"
    "r = (case map_of kvs ''recipe'' of None \<Rightarrow> recipe d
          | Some v \<Rightarrow> if v \<noteq> JNull then dumps (JStr (dumps v)) else recipe d)"
    "rows' = map (\<lambda>d. if drink_id d = i then d\<lparr>title := t, recipe := r\<rparr> else d) rows"
    "Drink_long \<lparr>drink_id = i, title = t, recipe = r\<rparr> = Inr l"
    "resp = success_drinks [l]"
proof -
  obtain dat where dat: "get_json req = Some dat" "truthy dat"
    using assms by (auto simp: update_drink_def split: option.splits if_splits)
  obtain tv where tv: "py_get dat ''title'' = Inr tv"
    using assms dat by (auto simp: update_drink_def split: sum.splits)
  then obtain kvs where kvs: "dat = JObj kvs"
    "tv = (case map_of kvs ''title'' of None \<Rightarrow> JNull | Some w \<Rightarrow> w)"
    using py_get_Inr by blast
  define rv where "rv = (case map_of kvs ''recipe'' of None \<Rightarrow> JNull | Some w \<Rightarrow> w)"
  have rv: "py_get dat ''recipe'' = Inr rv" by (simp add: kvs rv_def)
  obtain d where d: "one_or_none (filter (\<lambda>d. drink_id d = i) rows) = Inr (Some d)"
    using assms dat tv rv
    by (auto simp: update_drink_def Let_def split: sum.splits option.splits)
  define r where "r = (if rv \<noteq> JNull then dumps (JStr (dumps rv)) else recipe d)"
  define tv' where "tv' = (if tv \<noteq> JNull then tv else JStr (title d))"
  obtain d' where upd: "Drink_update i tv' r rows = Inr (d', rows')"
    and long: "\<exists>l. Drink_long d' = Inr l \<and> resp = success_drinks [l]"
    using assms dat tv rv d
    by (auto simp: update_drink_def Let_def r_def tv'_def split: sum.splits option.splits if_splits)
  obtain t where t: "tv' = JStr t" "d' = \<lparr>drink_id = i, title = t, recipe = r\<rparr>"
    "rows' = map (\<lambda>d. if drink_id d = i then d\<lparr>title := t, recipe := r\<rparr> else d) rows"
    using Drink_update_Inr [OF upd] by blast
  obtain l where l: "Drink_long d' = Inr l" "resp = success_drinks [l]" using long by blast
  show ?thesis
  proof (rule that [of kvs d t r l])
    show "get_json req = Some (JObj kvs)" using dat kvs by simp
    show "kvs \<noteq> []" using dat kvs by simp
    show "filter (\<lambda>d. drink_id d = i) rows = [d]" using d by (rule one_or_none_Some)
    show "(case map_of kvs ''title'' of None \<Rightarrow> JStr (title d) | Some v \<Rightarrow> if v \<noteq> JNull then v else JStr (title d)) = JStr t"
      using t(1) unfolding tv'_def kvs(2) by (auto split: option.splits)
    show "r = (case map_of kvs ''recipe'' of None \<Rightarrow> recipe d
          | Some v \<Rightarrow> if v \<noteq> JNull then dumps (JStr (dumps v)) else recipe d)"
      by (simp add: r_def rv_def split: option.splits)
    show "rows' = map (\<lambda>d. if drink_id d = i then d\<lparr>title := t, recipe := r\<rparr> else d) rows"
      by (rule t(3))
    show "Drink_long \<lparr>drink_id = i, title = t, recipe = r\<rparr> = Inr l" using l(1) t(2) by simp
    show "resp = success_drinks [l]" by (rule l(2))
  qed
qed

lemma update_drink_ok:
  assumes "get_json req = Some (JObj kvs)" "kvs \<noteq> []"
    and "filter (\<lambda>d. drink_id d = i) rows = [d]"
    and "(case map_of kvs ''title'' of None \<Rightarrow> JStr (title d)
          | Some v \<Rightarrow> if v \<noteq> JNull then v else JStr (title d)) = JStr t"
    and "r = (case map_of kvs ''recipe'' of None \<Rightarrow> recipe d
              | Some v \<Rightarrow> if v \<noteq> JNull then dumps (JStr (dumps v)) else recipe d)"
    and "\<not> (\<exists>x \<in> set rows. drink_id x \<noteq> i \<and> title x = t)"
    and "loads r = Some v"
  shows "update_drink payload i req rows =
           (Inr (Some (success_drinks
              [JObj [(''id'', JInt (int i)), (''title'', JStr t), (''recipe'', v)]])),
            map (\<lambda>d. if drink_id d = i then d\<lparr>title := t, recipe := r\<rparr> else d) rows)"
proof -
  define tv where "tv = (case map_of kvs ''title'' of None \<Rightarrow> JNull | Some w \<Rightarrow> w)"
  define rv where "rv = (case map_of kvs ''recipe'' of None \<Rightarrow> JNull | Some w \<Rightarrow> w)"
  have t: "(if tv \<noteq> JNull then tv else JStr (title d)) = JStr t"
    using assms(4) by (auto simp: tv_def split: option.splits if_splits)
  have r: "(case (if rv \<noteq> JNull then Some (dumps rv) else None) of
              Some s \<Rightarrow> dumps (JStr s) | None \<Rightarrow> recipe d) = r"
    using assms(5) by (auto simp: rv_def split: option.splits)
  have upd: "Drink_update i (JStr t) r rows =
      Inr (\<lparr>drink_id = i, title = t, recipe = r\<rparr>,
           map (\<lambda>d. if drink_id d = i then d\<lparr>title := t, recipe := r\<rparr> else d) rows)"
    using assms(6) by simp
  have long: "Drink_long \<lparr>drink_id = i, title = t, recipe = r\<rparr> =
      Inr (JObj [(''id'', JInt (int i)), (''title'', JStr t), (''recipe'', v)])"
    using assms(7) by (simp add: Drink_long_def)
  have "truthy (JObj kvs)" using assms(2) by simp
  then show ?thesis
    unfolding update_drink_def assms(1) Let_def
    by (simp only: sum.case if_False not_True_eq_False simp_thms py_get.simps
        tv_def [symmetric] rv_def [symmetric] assms(3) one_or_none.simps option.case t r upd
        prod.case long)
qed

lemma filter_single_nth:
  assumes "filter P rows = [d]" "k < length rows" "P (rows ! k)"
  shows "rows ! k = d"
proof -
  have "rows ! k \<in> set (filter P rows)" using assms(2,3) by simp
  then show ?thesis using assms(1) by simp
qed

text \<open>
  C6. After a successful \<open>PATCH /drinks/<id>\<close> the table has the same rows at the same
  positions with the same identifiers; a row of another drink is unchanged, and in every
  row the title is the one stored before when the body has no \<open>title\<close>, and the recipe is
  the one stored before when the body has no \<open>recipe\<close>.
\<close>

theorem update_drink_keeps_absent_fields:
  assumes "update_drink payload i req rows = (Inr (Some resp), rows')"
  shows "\<exists>kvs. get_json req = Some (JObj kvs) \<and> kvs \<noteq> [] \<and> length rows' = length rows \<and>
           (\<forall>k < length rows.
              drink_id (rows' ! k) = drink_id (rows ! k) \<and>
              (drink_id (rows ! k) \<noteq> i \<longrightarrow> rows' ! k = rows ! k) \<and>
              (map_of kvs ''title'' = None \<longrightarrow> title (rows' ! k) = title (rows ! k)) \<and>
              (map_of kvs ''recipe'' = None \<longrightarrow> recipe (rows' ! k) = recipe (rows ! k)))"
proof -
  from assms obtain kvs d t r l where u:
    "get_json req = Some (JObj kvs)" "kvs \<noteq> []"
    "filter (\<lambda>d. drink_id d = i) rows = [d]"
    "(case map_of kvs ''title'' of None \<Rightarrow> JStr (title d) | Some v \<Rightarrow> if v \<noteq> JNull then v else JStr (title d)) = JStr t"
    "r = (case map_of kvs ''recipe'' of None \<Rightarrow> recipe d
          | Some v \<Rightarrow> if v \<noteq> JNull then dumps (JStr (dumps v)) else recipe d)"
    "rows' = map (\<lambda>d. if drink_id d = i then d\<lparr>title := t, recipe := r\<rparr> else d) rows"
    by (rule update_drink_success)
  have "drink_id (rows' ! k) = drink_id (rows ! k) \<and>
        (drink_id (rows ! k) \<noteq> i \<longrightarrow> rows' ! k = rows ! k) \<and>
        (map_of kvs ''title'' = None \<longrightarrow> title (rows' ! k) = title (rows ! k)) \<and>
        (map_of kvs ''recipe'' = None \<longrightarrow> recipe (rows' ! k) = recipe (rows ! k))"
    if k: "k < length rows" for k
  proof (cases "drink_id (rows ! k) = i")
    case True
    then have "rows ! k = d" using filter_single_nth [OF u(3) k] by simp
    then show ?thesis using True k u(4,5) by (auto simp: u(6))
  next
    case False
    then show ?thesis using k by (simp add: u(6))
  qed
  then show ?thesis using u(1,2) by (auto simp: u(6))
qed


theorem update_drink_keeps_absent_fields_witness:
  "update_drink manager_claims 1 (manager PATCH (DrinkItem 1) ''x'' (JObj [(''title'', JStr ''Flat white'')])) example_rows =
     (Inr (Some (success_drinks
        [JObj [(''id'', JInt 1), (''title'', JStr ''Flat white''), (''recipe'', example_recipe)]])),
      [\<lparr>drink_id = 1, title = ''Flat white'', recipe = dumps example_recipe\<rparr>]) \<and>
   recipe (hd example_rows) = dumps example_recipe"
proof -
  let ?req = "manager PATCH (DrinkItem 1) ''x'' (JObj [(''title'', JStr ''Flat white'')])"
  have l: "loads (dumps example_recipe) = Some example_recipe"
    by (rule loads_dumps) (simp add: example_recipe_def)
  have u: "update_drink manager_claims 1 ?req example_rows =
     (Inr (Some (success_drinks
        [JObj [(''id'', JInt (int 1)), (''title'', JStr ''Flat white''), (''recipe'', example_recipe)]])),
      map (\<lambda>d. if drink_id d = 1 then d\<lparr>title := ''Flat white'', recipe := dumps example_recipe\<rparr> else d)
        example_rows)"
    by (rule update_drink_ok [where kvs = "[(''title'', JStr ''Flat white'')]"
          and d = "\<lparr>drink_id = 1, title = ''Latte'', recipe = dumps example_recipe\<rparr>"])
      (simp_all add: manager_def example_rows_def l)
  show ?thesis
    using u update_drink_keeps_absent_fields [OF u]
    by (simp add: example_rows_def)
qed

section \<open>What each route does to the table\<close>

lemma fold_max_bounds: "(a::nat) \<le> fold max xs a \<and> (\<forall>x \<in> set xs. x \<le> fold max xs a)"
proof (induction xs arbitrary: a)
  case Nil
  then show ?case by simp
next
  case (Cons y ys)
  have "max y a \<le> fold max ys (max y a)" "\<forall>x \<in> set ys. x \<le> fold max ys (max y a)"
    using Cons.IH [of "max y a"] by simp_all
  then show ?case by auto
qed

lemma next_id_fresh: "next_id rows \<notin> set (map drink_id rows)"
proof
  assume "next_id rows \<in> set (map drink_id rows)"
  then have "next_id rows \<le> fold max (map drink_id rows) 0"
    using fold_max_bounds [of 0 "map drink_id rows"] by blast
  then show False by (simp add: next_id_def)
qed

lemma Drink_insert_Inr:
  "Drink_insert tv rs rows = Inr (n, rows') \<Longrightarrow>
   \<exists>t r. tv = JStr t \<and> rs = Some r \<and> t \<notin> set (map title rows) \<and> n = next_id rows \<and>
         rows' = rows @ [\<lparr>drink_id = next_id rows, title = t, recipe = r\<rparr>]"
  by (cases "(tv, rs, rows)" rule: Drink_insert.cases) (auto split: if_splits)

lemma add_drinks_rows:
  assumes "add_drinks payload req rows = (res, rows')"
  shows "rows' = rows \<or>
         (\<exists>kvs v t. get_json req = Some (JObj kvs) \<and> map_of kvs ''recipe'' = Some v \<and>
            rows' = rows @ [\<lparr>drink_id = next_id rows, title = t, recipe = dumps v\<rparr>])"
proof (cases "rows' = rows")
  case True
  then show ?thesis by simp
next
  case False
  then obtain dat where dat: "data req \<noteq> []" "get_json req = Some dat"
    using assms by (auto simp: add_drinks_def split: if_splits option.splits)
  obtain tv where tv: "py_get dat ''title'' = Inr tv"
    using assms dat False by (auto simp: add_drinks_def split: sum.splits)
  then obtain kvs where kvs: "dat = JObj kvs" using py_get_Inr by blast
  define rv where "rv = (case map_of kvs ''recipe'' of None \<Rightarrow> JNull | Some w \<Rightarrow> w)"
  have rv: "py_get dat ''recipe'' = Inr rv" by (simp add: kvs rv_def)
  obtain n where ins: "Drink_insert tv (if rv \<noteq> JNull then Some (dumps rv) else None) rows = Inr (n, rows')"
    using assms dat tv rv False
    by (auto simp: add_drinks_def Let_def split: sum.splits option.splits)
  then obtain t r where tr: "(if rv \<noteq> JNull then Some (dumps rv) else None) = Some r"
    "rows' = rows @ [\<lparr>drink_id = next_id rows, title = t, recipe = r\<rparr>]"
    using Drink_insert_Inr by blast
  then have "rv \<noteq> JNull" "r = dumps rv" by (auto split: if_splits)
  moreover from this have "map_of kvs ''recipe'' = Some rv"
    by (auto simp: rv_def split: option.splits)
  ultimately show ?thesis using tr(2) dat(2) kvs by auto
qed

lemma update_drink_rows:
  assumes "update_drink payload i req rows = (res, rows')"
  shows "rows' = rows \<or>
         (\<exists>d t r. filter (\<lambda>d. drink_id d = i) rows = [d] \<and>
            (r = recipe d \<or> (\<exists>s. r = dumps (JStr s))) \<and>
            rows' = map (\<lambda>d. if drink_id d = i then d\<lparr>title := t, recipe := r\<rparr> else d) rows)"
proof (cases "rows' = rows")
  case True
  then show ?thesis by simp
next
  case False
  then obtain dat where dat: "get_json req = Some dat" "truthy dat"
    using assms by (auto simp: update_drink_def split: option.splits if_splits)
  obtain tv where tv: "py_get dat ''title'' = Inr tv"
    using assms dat False by (auto simp: update_drink_def split: sum.splits)
  obtain rv where rv: "py_get dat ''recipe'' = Inr rv"
    using assms dat tv False by (auto simp: update_drink_def split: sum.splits)
  obtain d where d: "one_or_none (filter (\<lambda>d. drink_id d = i) rows) = Inr (Some d)"
    using assms dat tv rv False
    by (auto simp: update_drink_def Let_def split: sum.splits option.splits)
  define r where "r = (if rv \<noteq> JNull then dumps (JStr (dumps rv)) else recipe d)"
  define tv' where "tv' = (if tv \<noteq> JNull then tv else JStr (title d))"
  obtain d' where "Drink_update i tv' r rows = Inr (d', rows')"
    using assms dat tv rv d False
    by (auto simp: update_drink_def Let_def r_def tv'_def split: sum.splits option.splits if_splits)
  then obtain t where
    "rows' = map (\<lambda>d. if drink_id d = i then d\<lparr>title := t, recipe := r\<rparr> else d) rows"
    using Drink_update_Inr by blast
  moreover have "r = recipe d \<or> (\<exists>s. r = dumps (JStr s))" by (auto simp: r_def)
  ultimately show ?thesis using one_or_none_Some [OF d] by blast
qed

lemma update_drink_ids:
  "update_drink payload i req rows = (res, rows') \<Longrightarrow> map drink_id rows' = map drink_id rows"
  by (drule update_drink_rows) (auto simp: comp_def)

lemma delete_drink_rows:
  "delete_drink payload i rows = (res, rows') \<Longrightarrow>
   rows' = rows \<or> rows' = filter (\<lambda>d. drink_id d \<noteq> i) rows"
  by (auto simp: delete_drink_def Drink_delete_def split: sum.splits option.splits
      dest!: one_or_none_Some dest: filter_eq_ConsD)

lemma get_drinks_rows: "get_drinks rows = (res, rows') \<Longrightarrow> rows' = rows"
  by (auto simp: get_drinks_def split: sum.splits)

lemma get_drink_details_rows: "get_drink_details payload rows = (res, rows') \<Longrightarrow> rows' = rows"
  by (auto simp: get_drink_details_def split: sum.splits)

lemma view_function_rows:
  assumes "view_function env e req rows = (res, rows')"
  shows "(\<exists>d. rows' = rows @ [d] \<and> drink_id d \<notin> set (map drink_id rows)) \<or>
         map drink_id rows' = map drink_id rows \<or>
         (\<exists>i. rows' = filter (\<lambda>d. drink_id d \<noteq> i) rows)"
proof (cases e)
  case Get_drinks
  then show ?thesis using assms by (auto dest: get_drinks_rows)
next
  case Get_drink_details
  then show ?thesis using assms
    by (auto dest!: requires_auth_cases dest: get_drink_details_rows)
next
  case Add_drinks
  then have "rows' = rows \<or> (\<exists>t r. rows' = rows @ [\<lparr>drink_id = next_id rows, title = t, recipe = r\<rparr>])"
    using assms by (auto dest!: requires_auth_cases add_drinks_rows)
  then show ?thesis using next_id_fresh [of rows] by auto
next
  case (Update_drink i)
  then show ?thesis using assms
    by (auto dest!: requires_auth_cases dest: update_drink_ids)
next
  case (Delete_drink i)
  then have "rows' = rows \<or> rows' = filter (\<lambda>d. drink_id d \<noteq> i) rows"
    using assms by (auto dest!: requires_auth_cases delete_drink_rows)
  then show ?thesis by auto
qed

lemma dispatch_cases:
  assumes "full_dispatch_request env req rows = (resp, rows')"
  obtains (unrouted) code where "url_map (req_method req) (url req) = Inl code" "rows' = rows"
      "resp = handle_http_exception code"
    | (routed) e res where "url_map (req_method req) (url req) = Inr e"
      "view_function env e req rows = (res, rows')"
      "resp = (case res of Inl x \<Rightarrow> handle_exception x
               | Inr None \<Rightarrow> \<lparr>status = 500, body = DefaultPage\<rparr>
               | Inr (Some r) \<Rightarrow> r)"
proof (cases "url_map (req_method req) (url req)")
  case (Inl code)
  then show ?thesis using assms unrouted by (simp add: full_dispatch_request_def)
next
  case (Inr e)
  obtain res rows1 where v: "view_function env e req rows = (res, rows1)"
    by (cases "view_function env e req rows")
  then show ?thesis using assms Inr routed [of e res] dispatch_view [OF Inr v] by simp
qed

lemma py_get_Inl: "py_get dat k = Inl x \<Longrightarrow> x = PyError"
  by (cases dat) auto

lemma one_or_none_Inl: "one_or_none xs = Inl x \<Longrightarrow> x = PyError"
  by (cases xs rule: one_or_none.cases) auto

lemma Drink_update_Inl: "Drink_update i tv r rows = Inl x \<Longrightarrow> x = PyError"
  by (cases tv) (auto split: if_splits)

lemma Drink_long_Inl: "Drink_long d = Inl x \<Longrightarrow> x = PyError"
  by (auto simp: Drink_long_def split: option.splits)

lemma update_drink_raises:
  assumes "update_drink payload i req rows = (Inl x, rows')"
  shows "x \<in> {HTTPException 400, HTTPException 409, HTTPException 404, PyError}"
  using assms
  by (auto simp: update_drink_def Let_def
      split: sum.splits option.splits if_splits prod.splits
      dest: py_get_Inl one_or_none_Inl Drink_update_Inl Drink_long_Inl)

lemma status_auth_error: "status (handle_exception (AuthError k)) \<noteq> 200"
  by (cases k) (simp_all add: handle_http_exception_def errorhandler_def bad_request_401_def
      bad_request_403_def error_body_def)

lemma update_view_raises:
  assumes "view_function env (Update_drink i) req rows = (Inl x, rows')"
  shows "status (handle_exception x) \<noteq> 200"
proof -
  have "(\<exists>k. x = AuthError k) \<or> (\<exists>payload. update_drink payload i req rows = (Inl x, rows'))"
    using assms by (auto dest!: requires_auth_cases)
  then show ?thesis
  proof
    assume "\<exists>k. x = AuthError k"
    then show ?thesis using status_auth_error by auto
  next
    assume "\<exists>payload. update_drink payload i req rows = (Inl x, rows')"
    then have "x \<in> {HTTPException 400, HTTPException 409, HTTPException 404, PyError}"
      using update_drink_raises by blast
    then show ?thesis
      by (auto simp: handle_http_exception_def errorhandler_def bad_request_400_def
          not_found_def error_body_def)
  qed
qed

section \<open>Identifiers do not change\<close>

text \<open>
  C7. One request, whatever it is, either leaves the table's rows and their identifiers
  where they are (an update rewrites title and recipe only), or appends one row with an
  identifier not in use (a create), or removes the rows of one identifier and leaves the
  others as they were (a delete). A \<open>PATCH /drinks/<id>\<close> answered with 200 returns the
  drink under the identifier of the URL, and that identifier is still in the table.
\<close>

theorem drink_id_immutable:
  assumes "full_dispatch_request env req rows = (resp, rows')"
  shows "((\<exists>d. rows' = rows @ [d] \<and> drink_id d \<notin> set (map drink_id rows)) \<or>
          map drink_id rows' = map drink_id rows \<or>
          (\<exists>i. rows' = filter (\<lambda>d. drink_id d \<noteq> i) rows)) \<and>
         (\<forall>i. req_method req = PATCH \<and> url req = DrinkItem i \<and> status resp = 200 \<longrightarrow>
            map drink_id rows' = map drink_id rows \<and> i \<in> set (map drink_id rows') \<and>
            (\<exists>t r. resp = success_drinks
               [JObj [(''id'', JInt (int i)), (''title'', JStr t), (''recipe'', r)]]))"
proof
  show "(\<exists>d. rows' = rows @ [d] \<and> drink_id d \<notin> set (map drink_id rows)) \<or>
        map drink_id rows' = map drink_id rows \<or>
        (\<exists>i. rows' = filter (\<lambda>d. drink_id d \<noteq> i) rows)"
    using assms
  proof (cases rule: dispatch_cases)
    case (unrouted code)
    then show ?thesis by simp
  next
    case (routed e res)
    then show ?thesis using view_function_rows by blast
  qed
next
  show "\<forall>i. req_method req = PATCH \<and> url req = DrinkItem i \<and> status resp = 200 \<longrightarrow>
            map drink_id rows' = map drink_id rows \<and> i \<in> set (map drink_id rows') \<and>
            (\<exists>t r. resp = success_drinks
               [JObj [(''id'', JInt (int i)), (''title'', JStr t), (''recipe'', r)]])"
  proof (intro allI impI)
    fix i
    assume a: "req_method req = PATCH \<and> url req = DrinkItem i \<and> status resp = 200"
    then have u: "url_map (req_method req) (url req) = Inr (Update_drink i)" by simp
    obtain res rows1 where v: "view_function env (Update_drink i) req rows = (res, rows1)"
      by (cases "view_function env (Update_drink i) req rows")
    have d: "full_dispatch_request env req rows =
        (case res of Inl x \<Rightarrow> handle_exception x
         | Inr None \<Rightarrow> \<lparr>status = 500, body = DefaultPage\<rparr>
         | Inr (Some r) \<Rightarrow> r, rows1)"
      by (rule dispatch_view [OF u v])
    then have rows1: "rows1 = rows'" and resp: "resp = (case res of Inl x \<Rightarrow> handle_exception x
         | Inr None \<Rightarrow> \<lparr>status = 500, body = DefaultPage\<rparr>
         | Inr (Some r) \<Rightarrow> r)"
      using assms by simp_all
    have res: "res = Inr (Some resp)"
    proof (cases res)
      case (Inl x)
      then show ?thesis using a resp update_view_raises [of env i req rows x rows1] v by simp
    next
      case (Inr ro)
      then show ?thesis using a resp by (cases ro) auto
    qed
    obtain payload where "update_drink payload i req rows = (Inr (Some resp), rows')"
      using v res rows1 by (auto dest!: requires_auth_cases)
    then obtain kvs d t r l where s:
      "filter (\<lambda>d. drink_id d = i) rows = [d]"
      "rows' = map (\<lambda>d. if drink_id d = i then d\<lparr>title := t, recipe := r\<rparr> else d) rows"
      "Drink_long \<lparr>drink_id = i, title = t, recipe = r\<rparr> = Inr l"
      "resp = success_drinks [l]"
      by (rule update_drink_success)
    have ids: "map drink_id rows' = map drink_id rows" by (simp add: s(2) comp_def)
    have "d \<in> set (filter (\<lambda>d. drink_id d = i) rows)" by (simp add: s(1))
    then have "i \<in> set (map drink_id rows)" by auto
    moreover have "\<exists>v. l = JObj [(''id'', JInt (int i)), (''title'', JStr t), (''recipe'', v)]"
      using s(3) by (auto simp: Drink_long_def split: option.splits)
    ultimately show "map drink_id rows' = map drink_id rows \<and> i \<in> set (map drink_id rows') \<and>
            (\<exists>t r. resp = success_drinks
               [JObj [(''id'', JInt (int i)), (''title'', JStr t), (''recipe'', r)]])"
      using ids s(4) by auto
  qed
qed


lemma dispatch_patch_ok:
  assumes "req_method req = PATCH" "url req = DrinkItem i"
    and "authorize env ''patch:drinks'' req = Inr payload"
    and "update_drink payload i req rows = (Inr (Some r), rows')"
  shows "full_dispatch_request env req rows = (r, rows')"
proof -
  have "view_function env (Update_drink i) req rows = (Inr (Some r), rows')"
    using assms(3,4) by (simp add: requires_auth_pass)
  then show ?thesis
    using dispatch_view [of req "Update_drink i" env rows] assms(1,2) by simp
qed

lemma loads_encoded_string: "loads (encode_basestring_ascii s) = Some (JStr s)"
  using loads_dumps [of "JStr s"] by simp

lemma loads_example_recipe: "loads (dumps example_recipe) = Some example_recipe"
  by (rule loads_dumps) (simp add: example_recipe_def)

lemma patch_title_example:
  "full_dispatch_request example_env
     (manager PATCH (DrinkItem 1) ''x'' (JObj [(''title'', JStr ''Flat white'')])) example_rows =
   (success_drinks
      [JObj [(''id'', JInt 1), (''title'', JStr ''Flat white''), (''recipe'', example_recipe)]],
    [\<lparr>drink_id = 1, title = ''Flat white'', recipe = dumps example_recipe\<rparr>])"
proof -
  let ?req = "manager PATCH (DrinkItem 1) ''x'' (JObj [(''title'', JStr ''Flat white'')])"
  have u: "update_drink manager_claims 1 ?req example_rows =
     (Inr (Some (success_drinks
        [JObj [(''id'', JInt (int 1)), (''title'', JStr ''Flat white''), (''recipe'', example_recipe)]])),
      map (\<lambda>d. if drink_id d = 1 then d\<lparr>title := ''Flat white'', recipe := dumps example_recipe\<rparr> else d)
        example_rows)"
    by (rule update_drink_ok [where kvs = "[(''title'', JStr ''Flat white'')]"
          and d = "\<lparr>drink_id = 1, title = ''Latte'', recipe = dumps example_recipe\<rparr>"])
      (simp_all add: manager_def example_rows_def loads_example_recipe)
  have a: "authorize example_env ''patch:drinks'' ?req = Inr manager_claims"
    by (rule authorize_manager) simp
  show ?thesis
    using dispatch_patch_ok [OF _ _ a u] by (simp add: manager_def example_rows_def)
qed

theorem drink_id_immutable_witness:
  "full_dispatch_request example_env
     (manager PATCH (DrinkItem 1) ''x'' (JObj [(''title'', JStr ''Flat white'')])) example_rows =
   (success_drinks
      [JObj [(''id'', JInt 1), (''title'', JStr ''Flat white''), (''recipe'', example_recipe)]],
    [\<lparr>drink_id = 1, title = ''Flat white'', recipe = dumps example_recipe\<rparr>]) \<and>
   status (success_drinks
      [JObj [(''id'', JInt 1), (''title'', JStr ''Flat white''), (''recipe'', example_recipe)]]) = 200 \<and>
   map drink_id [\<lparr>drink_id = 1, title = ''Flat white'', recipe = dumps example_recipe\<rparr>] =
     map drink_id example_rows"
  using patch_title_example drink_id_immutable [OF patch_title_example]
  by (simp add: status_success_drinks manager_def)

section \<open>\<open>PATCH\<close> serializes the recipe twice\<close>

text \<open>
  C2 fails on the code. \<open>update_drink\<close> applies \<open>json.dumps\<close> to the recipe of the body
  when it reads it and again when it assigns it to the drink, so the stored text is the
  JSON encoding of a string, and the long form in the 200 response carries that string:
  the serialized recipe, not the structured value that was submitted.
\<close>

theorem update_drink_recipe_serialized_twice:
  "full_dispatch_request example_env
     (manager PATCH (DrinkItem 1) (dumps (JObj [(''recipe'', espresso_recipe)]))
        (JObj [(''recipe'', espresso_recipe)])) example_rows =
   (success_drinks
      [JObj [(''id'', JInt 1), (''title'', JStr ''Latte''),
             (''recipe'', JStr (dumps espresso_recipe))]],
    [\<lparr>drink_id = 1, title = ''Latte'', recipe = dumps (JStr (dumps espresso_recipe))\<rparr>]) \<and>
   dumps espresso_recipe = ''[{\"color\": \"brown\", \"name\": \"espresso\", \"parts\": 2}]'' \<and>
   JStr (dumps espresso_recipe) \<noteq> espresso_recipe"
proof -
  let ?req = "manager PATCH (DrinkItem 1) (dumps (JObj [(''recipe'', espresso_recipe)]))
        (JObj [(''recipe'', espresso_recipe)])"
  have u: "update_drink manager_claims 1 ?req example_rows =
     (Inr (Some (success_drinks
        [JObj [(''id'', JInt (int 1)), (''title'', JStr ''Latte''),
               (''recipe'', JStr (dumps espresso_recipe))]])),
      map (\<lambda>d. if drink_id d = 1
                then d\<lparr>title := ''Latte'', recipe := dumps (JStr (dumps espresso_recipe))\<rparr> else d)
        example_rows)"
    by (rule update_drink_ok [where kvs = "[(''recipe'', espresso_recipe)]"
          and d = "\<lparr>drink_id = 1, title = ''Latte'', recipe = dumps example_recipe\<rparr>"])
      (simp_all add: manager_def example_rows_def loads_encoded_string, simp add: espresso_recipe_def)
  have a: "authorize example_env ''patch:drinks'' ?req = Inr manager_claims"
    by (rule authorize_manager) simp
  have d: "full_dispatch_request example_env ?req example_rows =
   (success_drinks
      [JObj [(''id'', JInt 1), (''title'', JStr ''Latte''),
             (''recipe'', JStr (dumps espresso_recipe))]],
    [\<lparr>drink_id = 1, title = ''Latte'', recipe = dumps (JStr (dumps espresso_recipe))\<rparr>])"
    using dispatch_patch_ok [OF _ _ a u] by (simp add: manager_def example_rows_def)
  have t: "dumps espresso_recipe = ''[{\"color\": \"brown\", \"name\": \"espresso\", \"parts\": 2}]''"
    by code_simp
  have n: "JStr (dumps espresso_recipe) \<noteq> espresso_recipe"
    by (simp add: espresso_recipe_def)
  show ?thesis using d t n by simp
qed

section \<open>Create, then list in detail\<close>







section \<open>Invariants of the table\<close>

text \<open>
  The table starts empty (\<open>db_drop_and_create_all()\<close> runs when the module is loaded).
  Every request keeps the identifiers unique, and every request whose JSON body is a
  Python value (each \<open>dict\<close> key once) keeps the stored recipes JSON texts.
\<close>

lemma distinct_ids_preserved:
  assumes "distinct (map drink_id rows)"
    and "full_dispatch_request env req rows = (resp, rows')"
  shows "distinct (map drink_id rows')"
  using assms(2)
proof (cases rule: dispatch_cases)
  case (unrouted code)
  then show ?thesis using assms(1) by simp
next
  case (routed e res)
  then have "(\<exists>d. rows' = rows @ [d] \<and> drink_id d \<notin> set (map drink_id rows)) \<or>
      map drink_id rows' = map drink_id rows \<or>
      (\<exists>i. rows' = filter (\<lambda>d. drink_id d \<noteq> i) rows)"
    using view_function_rows by blast
  then show ?thesis using assms(1) by (auto simp: distinct_map_filter)
qed

lemma wf_json_member:
  "wf_json (JObj kvs) \<Longrightarrow> map_of kvs k = Some v \<Longrightarrow> wf_json v"
  by (auto simp: list_all_iff dest: map_of_SomeD)

lemma stored_recipes_preserved:
  assumes "list_all (\<lambda>d. loads (recipe d) \<noteq> None) rows"
    and "\<And>dat. get_json req = Some dat \<Longrightarrow> wf_json dat"
    and "full_dispatch_request env req rows = (resp, rows')"
  shows "list_all (\<lambda>d. loads (recipe d) \<noteq> None) rows'"
  using assms(3)
proof (cases rule: dispatch_cases)
  case (unrouted code)
  then show ?thesis using assms(1) by simp
next
  case (routed e res)
  show ?thesis
  proof (cases e)
    case Get_drinks
    then show ?thesis using routed(2) assms(1) by (auto dest: get_drinks_rows)
  next
    case Get_drink_details
    then show ?thesis using routed(2) assms(1)
      by (auto dest!: requires_auth_cases dest: get_drink_details_rows)
  next
    case Add_drinks
    then have "rows' = rows \<or>
        (\<exists>kvs v t. get_json req = Some (JObj kvs) \<and> map_of kvs ''recipe'' = Some v \<and>
           rows' = rows @ [\<lparr>drink_id = next_id rows, title = t, recipe = dumps v\<rparr>])"
      using routed(2) by (auto dest!: requires_auth_cases add_drinks_rows)
    then show ?thesis
    proof
      assume "rows' = rows"
      then show ?thesis using assms(1) by simp
    next
      assume "\<exists>kvs v t. get_json req = Some (JObj kvs) \<and> map_of kvs ''recipe'' = Some v \<and>
           rows' = rows @ [\<lparr>drink_id = next_id rows, title = t, recipe = dumps v\<rparr>]"
      then obtain kvs v t where a: "get_json req = Some (JObj kvs)" "map_of kvs ''recipe'' = Some v"
        "rows' = rows @ [\<lparr>drink_id = next_id rows, title = t, recipe = dumps v\<rparr>]" by blast
      have "wf_json v" using assms(2) [OF a(1)] a(2) by (rule wf_json_member)
      then have "loads (dumps v) = Some v" by (rule loads_dumps)
      then show ?thesis using assms(1) a(3) by simp
    qed
  next
    case (Update_drink i)
    then have "rows' = rows \<or>
         (\<exists>d t r. filter (\<lambda>d. drink_id d = i) rows = [d] \<and>
            (r = recipe d \<or> (\<exists>s. r = dumps (JStr s))) \<and>
            rows' = map (\<lambda>d. if drink_id d = i then d\<lparr>title := t, recipe := r\<rparr> else d) rows)"
    proof -
      have "rows' = rows \<or> (\<exists>payload. update_drink payload i req rows = (res, rows'))"
        using routed(2) Update_drink by (auto dest!: requires_auth_cases)
      then show ?thesis using update_drink_rows by blast
    qed
    then show ?thesis
    proof
      assume "rows' = rows"
      then show ?thesis using assms(1) by simp
    next
      assume "\<exists>d t r. filter (\<lambda>d. drink_id d = i) rows = [d] \<and>
            (r = recipe d \<or> (\<exists>s. r = dumps (JStr s))) \<and>
            rows' = map (\<lambda>d. if drink_id d = i then d\<lparr>title := t, recipe := r\<rparr> else d) rows"
      then obtain d t r where a: "filter (\<lambda>d. drink_id d = i) rows = [d]"
        "r = recipe d \<or> (\<exists>s. r = dumps (JStr s))"
        "rows' = map (\<lambda>d. if drink_id d = i then d\<lparr>title := t, recipe := r\<rparr> else d) rows"
        by blast
      have "d \<in> set (filter (\<lambda>d. drink_id d = i) rows)" by (simp add: a(1))
      then have "loads (recipe d) \<noteq> None" using assms(1) by (simp add: list_all_iff)
      then have "loads r \<noteq> None" using a(2) loads_encoded_string by auto
      then show ?thesis using assms(1) by (auto simp: a(3) list_all_iff)
    qed
  next
    case (Delete_drink i)
    then have "rows' = rows \<or> rows' = filter (\<lambda>d. drink_id d \<noteq> i) rows"
      using routed(2) by (auto dest!: requires_auth_cases delete_drink_rows)
    then show ?thesis using assms(1) by (auto simp: list_all_iff)
  qed
qed

end
